(* ===== verification/Prelude.thy ===== *)
theory Prelude
  imports Main "HOL-Library.Word" "HOL-Library.Sublist" "HOL-Library.Multiset"
begin

text \<open>
  Shared vocabulary of the development: the machine integers and byte strings of the program,
  the result type of its fallible functions, the little-endian integer codecs both container
  formats are built from, and the interfaces (locales) several components share.

  A Rust \<open>str\<close> is its UTF-8 byte sequence: it is a HOL \<open>string\<close>, whose characters are
  bytes, so \<open>length\<close> is Rust's \<open>len()\<close>. A \<open>Bytes\<close> or \<open>[u8]\<close> is a list of 8-bit words.
  \<open>usize\<close> is 64 bits wide, as on every target the project releases for.
\<close>

section \<open>Types\<close>

type_synonym u8 = "8 word"
type_synonym u16 = "16 word"
type_synonym u32 = "32 word"
type_synonym u64 = "64 word"
type_synonym bytes = "u8 list"
type_synonym str = string

text \<open>What a fallible function returns: a value, an error with its message, or a panic.\<close>

datatype 'a res = Ok 'a | Err str | Panic

named_theorems codec_simps \<open>evaluation of the byte codecs on framed data\<close>
named_theorems std_simps \<open>the standard library's string functions on structured arguments\<close>

section \<open>Words\<close>

lemma unat_u8_less [simp]: "unat (x :: u8) < 256"
  using unsigned_less [where 'a = nat, of x] by simp

lemma unat_u16_less [simp]: "unat (x :: u16) < 65536"
  using unsigned_less [where 'a = nat, of x] by simp

lemma unat_u32_less [simp]: "unat (x :: u32) < 4294967296"
  using unsigned_less [where 'a = nat, of x] by simp

lemma unat_u64_less [simp]: "unat (x :: u64) < 18446744073709551616"
  using unsigned_less [where 'a = nat, of x] by simp

lemma unat_u32_of_nat [simp]: "n < 2 ^ 32 \<Longrightarrow> unat (word_of_nat n :: u32) = n"
  by (simp add: unat_of_nat take_bit_nat_eq_self)

lemma unat_u64_of_nat [simp]: "n < 2 ^ 64 \<Longrightarrow> unat (word_of_nat n :: u64) = n"
  by (simp add: unat_of_nat take_bit_nat_eq_self)

lemma unat_u64_max [simp]: "unat (- 1 :: u64) = 18446744073709551615"
  by (simp add: unsigned_minus_1_eq_mask mask_eq_exp_minus_1)

section \<open>Slices\<close>

text \<open>\<open>raw[a..b]\<close> for \<open>a \<le> b \<le> raw.len()\<close>.\<close>

definition subslice :: "'a list \<Rightarrow> nat \<Rightarrow> nat \<Rightarrow> 'a list" where
  "subslice xs a b = take (b - a) (drop a xs)"

lemma subslice_middle [codec_simps]:
  "a = length p \<Longrightarrow> b = length p + length m \<Longrightarrow> subslice (p @ m @ r) a b = m"
  by (simp add: subslice_def)

lemma subslice_end [codec_simps]:
  "a = length p \<Longrightarrow> b = length p + length m \<Longrightarrow> subslice (p @ m) a b = m"
  by (simp add: subslice_def)

lemma drop_subslice: "a \<le> b \<Longrightarrow> drop a xs = subslice xs a b @ drop b xs"
  using append_take_drop_id [of "b - a" "drop a xs"] by (simp add: subslice_def)

lemma length_subslice: "b \<le> length xs \<Longrightarrow> length (subslice xs a b) = b - a"
  by (simp add: subslice_def)

lemma subslice_take: "b \<le> n \<Longrightarrow> subslice (take n xs) a b = subslice xs a b"
  by (simp add: subslice_def drop_take min_def)

section \<open>Strings as bytes\<close>

definition as_bytes :: "str \<Rightarrow> bytes" where
  "as_bytes s = map (\<lambda>c. word_of_nat (of_char c)) s"

definition of_bytes :: "bytes \<Rightarrow> str" where
  "of_bytes bs = map (\<lambda>b. char_of (unat b)) bs"

lemma of_char_less_256: "(of_char c :: nat) < 256"
  by (cases c) (simp add: of_char_def horner_sum_simps split: if_splits)

lemma unat_byte_of_char [simp]: "unat (word_of_nat (of_char c) :: u8) = of_char c"
  using of_char_less_256 [of c] by (simp add: unat_of_nat take_bit_nat_eq_self)

lemma of_bytes_as_bytes [simp]: "of_bytes (as_bytes s) = s"
  by (simp add: of_bytes_def as_bytes_def comp_def)

lemma as_bytes_of_bytes [simp]: "as_bytes (of_bytes bs) = bs"
proof -
  have "(word_of_nat (of_char (char_of (unat b) :: char)) :: u8) = b" for b :: u8
    by (simp add: of_char_of)
  then show ?thesis by (simp add: of_bytes_def as_bytes_def comp_def map_idI)
qed

lemma length_as_bytes [simp]: "length (as_bytes s) = length s"
  by (simp add: as_bytes_def)

lemma length_of_bytes [simp]: "length (of_bytes bs) = length bs"
  by (simp add: of_bytes_def)

lemma as_bytes_append [simp]: "as_bytes (s @ t) = as_bytes s @ as_bytes t"
  by (simp add: as_bytes_def)

lemma as_bytes_inject [simp]: "as_bytes s = as_bytes t \<longleftrightarrow> s = t"
  by (metis of_bytes_as_bytes)

section \<open>Little-endian integers\<close>

text \<open>\<open>to_le_bytes\<close> and \<open>from_le_bytes\<close> of a \<open>k\<close>-byte integer, through its value.\<close>

fun le_bytes :: "nat \<Rightarrow> nat \<Rightarrow> bytes" where
  "le_bytes 0 n = []"
| "le_bytes (Suc k) n = word_of_nat n # le_bytes k (n div 256)"

fun le_value :: "bytes \<Rightarrow> nat" where
  "le_value [] = 0"
| "le_value (b # bs) = unat b + 256 * le_value bs"

lemma length_le_bytes [simp]: "length (le_bytes k n) = k"
  by (induction k arbitrary: n) auto

lemma le_value_le_bytes: "le_value (le_bytes k n) = n mod 256 ^ k"
proof (induction k arbitrary: n)
  case 0
  then show ?case by simp
next
  case (Suc k)
  have "n mod (256 * 256 ^ k) = 256 * (n div 256 mod 256 ^ k) + n mod 256"
    by (rule mod_mult2_eq)
  with Suc show ?case by (simp add: unat_of_nat take_bit_eq_mod)
qed

lemma le_value_bound: "le_value bs < 256 ^ length bs"
proof (induction bs)
  case Nil
  then show ?case by simp
next
  case (Cons b bs)
  then have "256 * Suc (le_value bs) \<le> 256 * 256 ^ length bs"
    by (intro mult_le_mono2) simp
  with unat_u8_less [of b] show ?case by (simp del: unat_u8_less)
qed

lemma le_bytes_le_value: "length bs = k \<Longrightarrow> le_bytes k (le_value bs) = bs"
proof (induction bs arbitrary: k)
  case Nil
  then show ?case by simp
next
  case (Cons b bs)
  have "(word_of_nat (256 * le_value bs) :: u8) = 0"
    by (simp only: word_of_nat_eq_0_iff) simp
  then have "(word_of_nat (unat b + 256 * le_value bs) :: u8) = b"
    by (simp only: of_nat_add) simp
  moreover have "(unat b + 256 * le_value bs) div 256 = le_value bs"
    using unat_u8_less [of b] by (simp del: unat_u8_less)
  ultimately show ?case using Cons by auto
qed

definition u32_to_le :: "u32 \<Rightarrow> bytes" where
  "u32_to_le x = le_bytes 4 (unat x)"

definition u32_from_le :: "bytes \<Rightarrow> u32" where
  "u32_from_le bs = word_of_nat (le_value bs)"

definition u64_to_le :: "u64 \<Rightarrow> bytes" where
  "u64_to_le x = le_bytes 8 (unat x)"

definition u64_from_le :: "bytes \<Rightarrow> u64" where
  "u64_from_le bs = word_of_nat (le_value bs)"

text \<open>
  The interface the container formats rely on: a fixed-width integer codec. Both formats read
  fields out of the middle of a buffer, which the locale's lemmas do once for every width.
\<close>

locale le_codec =
  fixes width :: nat
    and to_le :: "'i \<Rightarrow> bytes"
    and from_le :: "bytes \<Rightarrow> 'i"
  assumes to_le_length: "length (to_le x) = width"
    and from_to_le: "from_le (to_le x) = x"
    and to_from_le: "length bs = width \<Longrightarrow> to_le (from_le bs) = bs"
begin

lemma field_first: "from_le (take width (to_le x @ r)) = x"
  by (simp add: from_to_le flip: to_le_length [of x])

lemma field_at:
  "a = length p \<Longrightarrow> b = length p + width \<Longrightarrow> from_le (subslice (p @ to_le x @ r) a b) = x"
  by (simp add: subslice_middle to_le_length from_to_le)

lemma to_le_inject: "to_le x = to_le y \<longleftrightarrow> x = y"
  by (metis from_to_le)

end

interpretation le32: le_codec 4 u32_to_le u32_from_le
proof unfold_locales
  fix x :: u32
  show "length (u32_to_le x) = 4" by (simp add: u32_to_le_def)
  show "u32_from_le (u32_to_le x) = x"
    by (simp add: u32_to_le_def u32_from_le_def le_value_le_bytes)
next
  fix bs :: bytes
  assume "length bs = 4"
  then show "u32_to_le (u32_from_le bs) = bs"
    using le_value_bound [of bs] by (simp add: u32_to_le_def u32_from_le_def le_bytes_le_value)
qed

interpretation le64: le_codec 8 u64_to_le u64_from_le
proof unfold_locales
  fix x :: u64
  show "length (u64_to_le x) = 8" by (simp add: u64_to_le_def)
  show "u64_from_le (u64_to_le x) = x"
    by (simp add: u64_to_le_def u64_from_le_def le_value_le_bytes)
next
  fix bs :: bytes
  assume "length bs = 8"
  then show "u64_to_le (u64_from_le bs) = bs"
    using le_value_bound [of bs] by (simp add: u64_to_le_def u64_from_le_def le_bytes_le_value)
qed

lemmas le_lengths [simp] = le32.to_le_length le64.to_le_length

section \<open>Steps that commute\<close>

text \<open>
  Concurrent tasks of the program share state through atomic steps that commute. The interface
  says so; its client lemmas say that then every interleaving gives the state that running the
  tasks one after the other gives.
\<close>

locale commuting_steps =
  fixes step :: "'op \<Rightarrow> 's \<Rightarrow> 's"
  assumes commute: "step a (step b s) = step b (step a s)"
begin

lemma fold_permuted: "mset xs = mset ys \<Longrightarrow> fold step xs = fold step ys"
  by (rule fold_multiset_equiv) (auto simp: commute)

lemma fold_interleaved:
  assumes "mset steps = mset (concat (map steps_of tasks))"
  shows "fold step steps s = fold (\<lambda>t. fold step (steps_of t)) tasks s"
proof -
  have "fold step (concat (map steps_of tasks)) s = fold (\<lambda>t. fold step (steps_of t)) tasks s"
    by (induction tasks arbitrary: s) auto
  with fold_permuted [OF assms] show ?thesis by simp
qed

end

section \<open>Caches\<close>

text \<open>
  What the proxy relies on in its store: an object put under a fresh key, or once found under any
  key, is found again, and stays found whatever is looked up or stored in between. \<open>held\<close> is what
  the provider can answer by itself, \<open>good\<close> its invariant, \<open>valid\<close> the keys it promises this for;
  \<open>fresh\<close> says nothing was put under a key yet.
\<close>

datatype 'k cache_op = Lookup 'k | Insert 'k bytes

locale object_cache =
  fixes get :: "'k \<Rightarrow> 's \<Rightarrow> bytes option \<times> 's"
    and put :: "'k \<Rightarrow> bytes \<Rightarrow> 's \<Rightarrow> 's"
    and held :: "'k \<Rightarrow> 's \<Rightarrow> bytes option"
    and good :: "'s \<Rightarrow> bool"
    and valid :: "'k \<Rightarrow> bool"
    and fresh :: "'k \<Rightarrow> 's \<Rightarrow> bool"
  assumes get_held: "held k s = Some b \<Longrightarrow> fst (get k s) = Some b"
    and get_fills: "good s \<Longrightarrow> fst (get k s) = Some b \<Longrightarrow> held k (snd (get k s)) = Some b"
    and get_keeps: "good s \<Longrightarrow> valid k \<Longrightarrow> valid j \<Longrightarrow> j \<noteq> k \<Longrightarrow> held k (snd (get j s)) = held k s"
    and put_fills: "good s \<Longrightarrow> fresh k s \<Longrightarrow> held k (put k b s) = Some b"
    and put_keeps: "good s \<Longrightarrow> valid k \<Longrightarrow> valid j \<Longrightarrow> j \<noteq> k \<Longrightarrow> held k (put j c s) = held k s"
    and put_again: "\<not> fresh k s \<Longrightarrow> put k b s = s"
    and put_spends: "\<not> fresh k (put k b s)"
    and fresh_get: "fresh k (snd (get j s)) = fresh k s"
    and fresh_put: "j \<noteq> k \<Longrightarrow> fresh k (put j c s) = fresh k s"
    and good_get: "good s \<Longrightarrow> good (snd (get k s))"
    and good_put: "good s \<Longrightarrow> good (put k b s)"
begin

fun run_op :: "'k cache_op \<Rightarrow> 's \<Rightarrow> 's" where
  "run_op (Lookup k) s = snd (get k s)"
| "run_op (Insert k b) s = put k b s"

fun op_key :: "'k cache_op \<Rightarrow> 'k" where
  "op_key (Lookup k) = k"
| "op_key (Insert k b) = k"

definition holds :: "'k \<Rightarrow> bytes \<Rightarrow> 's \<Rightarrow> bool" where
  "holds k b s \<longleftrightarrow> good s \<and> \<not> fresh k s \<and> held k s = Some b"

lemma holds_op: "holds k b s \<Longrightarrow> valid k \<Longrightarrow> valid (op_key op) \<Longrightarrow> holds k b (run_op op s)"
proof (cases op)
  case (Lookup j)
  moreover assume "holds k b s" "valid k" "valid (op_key op)"
  ultimately show ?thesis
    by (cases "j = k") (auto simp: holds_def get_keeps get_held get_fills good_get fresh_get)
next
  case (Insert j c)
  moreover assume "holds k b s" "valid k" "valid (op_key op)"
  ultimately show ?thesis
    by (cases "j = k") (auto simp: holds_def put_again good_put put_keeps fresh_put)
qed

lemma holds_ops:
  "holds k b s \<Longrightarrow> valid k \<Longrightarrow> \<forall>op \<in> set ops. valid (op_key op) \<Longrightarrow> holds k b (fold run_op ops s)"
  by (induction ops arbitrary: s) (auto simp: holds_op)

lemma holds_put: "good s \<Longrightarrow> fresh k s \<Longrightarrow> holds k b (put k b s)"
  by (simp add: holds_def good_put put_fills put_spends)

lemma found_after_put:
  assumes "good s" "valid k" "fresh k s" "\<forall>op \<in> set ops. valid (op_key op)"
  shows "fst (get k (fold run_op ops (put k b s))) = Some b"
  using holds_ops [OF holds_put [OF assms(1,3)] assms(2,4)] by (simp add: holds_def get_held)

end

section \<open>Transition systems\<close>

text \<open>An invariant of the steps holds in every state they reach.\<close>

locale stepping =
  fixes step :: "'s \<Rightarrow> 's \<Rightarrow> bool"
    and inv :: "'s \<Rightarrow> bool"
  assumes inv_step: "inv s \<Longrightarrow> step s t \<Longrightarrow> inv t"
begin

lemma inv_reachable: "step\<^sup>*\<^sup>* s t \<Longrightarrow> inv s \<Longrightarrow> inv t"
  by (induction rule: rtranclp_induct) (auto intro: inv_step)

end

end
