(* ===== verification/Utf8.thy ===== *)
theory Utf8
  imports Prelude
begin

text \<open>
  The standard library's UTF-8 functions the program uses: \<open>std::str::from_utf8\<close>, which
  accepts exactly the well-formed sequences of the Unicode standard's table 3-7, and
  \<open>String::from_utf8_lossy\<close>, which replaces each maximal ill-formed prefix by one U+FFFD.
  Both scan with \<open>utf8_step\<close>, which says whether a well-formed sequence starts here and how
  many bytes to consume.
\<close>

definition cont_byte :: "u8 \<Rightarrow> bool" where
  "cont_byte b \<longleftrightarrow> 0x80 \<le> b \<and> b \<le> 0xBF"

definition utf8_width :: "u8 \<Rightarrow> nat" where
  "utf8_width a =
     (if a < 0x80 then 1
      else if 0xC2 \<le> a \<and> a \<le> 0xDF then 2
      else if 0xE0 \<le> a \<and> a \<le> 0xEF then 3
      else if 0xF0 \<le> a \<and> a \<le> 0xF4 then 4
      else 0)"

definition second_ok :: "u8 \<Rightarrow> u8 \<Rightarrow> bool" where
  "second_ok a b =
     (if a = 0xE0 then 0xA0 \<le> b \<and> b \<le> 0xBF
      else if a = 0xED then 0x80 \<le> b \<and> b \<le> 0x9F
      else if a = 0xF0 then 0x90 \<le> b \<and> b \<le> 0xBF
      else if a = 0xF4 then 0x80 \<le> b \<and> b \<le> 0x8F
      else cont_byte b)"

text \<open>For a lead byte and what follows it: is the sequence well formed, and its length.\<close>

definition utf8_step :: "u8 \<Rightarrow> bytes \<Rightarrow> bool \<times> nat" where
  "utf8_step a r =
     (let w = utf8_width a in
      if w = 0 then (False, 1)
      else if w = 1 then (True, 1)
      else case r of
        [] \<Rightarrow> (False, 1)
      | b # r2 \<Rightarrow>
          if \<not> second_ok a b then (False, 1)
          else if w = 2 then (True, 2)
          else case r2 of
            [] \<Rightarrow> (False, 2)
          | c # r3 \<Rightarrow>
              if \<not> cont_byte c then (False, 2)
              else if w = 3 then (True, 3)
              else case r3 of
                [] \<Rightarrow> (False, 3)
              | d # r4 \<Rightarrow> if cont_byte d then (True, 4) else (False, 3))"

function utf8_valid :: "bytes \<Rightarrow> bool" where
  "utf8_valid [] = True"
| "utf8_valid (a # r) =
     (fst (utf8_step a r) \<and> utf8_valid (drop (snd (utf8_step a r) - 1) r))"
  by pat_completeness auto
termination
  by (relation "measure length") auto

function utf8_lossy :: "bytes \<Rightarrow> bytes" where
  "utf8_lossy [] = []"
| "utf8_lossy (a # r) =
     (if fst (utf8_step a r) then a # take (snd (utf8_step a r) - 1) r else [0xEF, 0xBF, 0xBD])
     @ utf8_lossy (drop (snd (utf8_step a r) - 1) r)"
  by pat_completeness auto
termination
  by (relation "measure length") auto

definition from_utf8 :: "bytes \<Rightarrow> str option" where
  "from_utf8 bs = (if utf8_valid bs then Some (of_bytes bs) else None)"

definition from_utf8_lossy :: "bytes \<Rightarrow> str" where
  "from_utf8_lossy bs = of_bytes (utf8_lossy bs)"

text \<open>What every Rust \<open>String\<close> satisfies.\<close>

definition rust_str :: "str \<Rightarrow> bool" where
  "rust_str s = utf8_valid (as_bytes s)"

lemma utf8_step_append:
  "fst (utf8_step a r) \<Longrightarrow> utf8_step a (r @ s) = utf8_step a r \<and> snd (utf8_step a r) \<le> Suc (length r)"
  by (auto simp: utf8_step_def Let_def split: list.splits if_splits)

lemma utf8_valid_append: "utf8_valid xs \<Longrightarrow> utf8_valid (xs @ ys) = utf8_valid ys"
proof (induction xs rule: utf8_valid.induct)
  case 1
  then show ?case by simp
next
  case (2 a r)
  then have ok: "fst (utf8_step a r)" and rest: "utf8_valid (drop (snd (utf8_step a r) - 1) r)"
    by auto
  from utf8_step_append [OF ok, of ys] "2.IH" [OF rest] rest ok show ?case by simp
qed

lemma utf8_lossy_valid: "utf8_valid bs \<Longrightarrow> utf8_lossy bs = bs"
  by (induction bs rule: utf8_valid.induct) auto

lemma utf8_step_ascii: "a < 0x80 \<Longrightarrow> utf8_step a r = (True, 1)"
  by (simp add: utf8_step_def utf8_width_def)

lemma utf8_valid_ascii: "\<forall>b \<in> set bs. b < 0x80 \<Longrightarrow> utf8_valid bs"
  by (induction bs) (auto simp: utf8_step_ascii)

lemma from_utf8_rust_str: "rust_str s \<Longrightarrow> from_utf8 (as_bytes s) = Some s"
  by (simp add: from_utf8_def rust_str_def)

lemma from_utf8_SomeD: "from_utf8 bs = Some s \<Longrightarrow> bs = as_bytes s \<and> rust_str s"
  by (auto simp: from_utf8_def rust_str_def split: if_splits)

lemma from_utf8_lossy_rust_str: "rust_str s \<Longrightarrow> from_utf8_lossy (as_bytes s) = s"
  by (simp add: from_utf8_lossy_def rust_str_def utf8_lossy_valid)

lemma rust_str_Nil [simp]: "rust_str []"
  by (simp add: rust_str_def as_bytes_def)

lemma rust_str_append: "rust_str s \<Longrightarrow> rust_str (s @ t) = rust_str t"
  by (simp add: rust_str_def utf8_valid_append)

lemma ascii_byte: "of_char c < (128 :: nat) \<Longrightarrow> (word_of_nat (of_char c) :: u8) < 0x80"
  by (simp add: word_less_nat_alt)

lemma rust_str_ascii: "\<forall>c \<in> set s. of_char c < (128 :: nat) \<Longrightarrow> rust_str s"
  unfolding rust_str_def as_bytes_def
  by (rule utf8_valid_ascii) (auto simp: ascii_byte)

end
