(* ===== verification/Rust_Str.thy ===== *)
theory Rust_Str
  imports Utf8
begin

text \<open>
  The string functions of Rust's standard library the program calls, on UTF-8 byte strings:
  prefix, suffix and substring tests, splitting, trimming, lines, ASCII case, and the decimal
  form of unsigned integers in both directions. Each is executable; the lemmas relate them to
  the list library (\<open>prefix\<close>, \<open>suffix\<close>, \<open>sublist\<close>) and to each other.
\<close>

section \<open>Tests and splitting\<close>

definition starts_with :: "str \<Rightarrow> str \<Rightarrow> bool" where
  "starts_with s p \<longleftrightarrow> take (length p) s = p"

definition ends_with :: "str \<Rightarrow> str \<Rightarrow> bool" where
  "ends_with s p \<longleftrightarrow> length p \<le> length s \<and> drop (length s - length p) s = p"

definition strip_prefix :: "str \<Rightarrow> str \<Rightarrow> str option" where
  "strip_prefix p s = (if starts_with s p then Some (drop (length p) s) else None)"

fun contains :: "str \<Rightarrow> str \<Rightarrow> bool" where
  "contains [] p = (p = [])"
| "contains (c # s) p = (starts_with (c # s) p \<or> contains s p)"

fun split_on :: "char \<Rightarrow> str \<Rightarrow> str list" where
  "split_on c [] = [[]]"
| "split_on c (x # s) =
     (if x = c then [] # split_on c s
      else case split_on c s of [] \<Rightarrow> [[x]] | y # ys \<Rightarrow> (x # y) # ys)"

fun join :: "str \<Rightarrow> str list \<Rightarrow> str" where
  "join sep [] = []"
| "join sep [s] = s"
| "join sep (s # t # r) = s @ sep @ join sep (t # r)"

lemma starts_with_prefix [std_simps]: "starts_with s p \<longleftrightarrow> prefix p s"
  by (auto simp: starts_with_def prefix_def) (metis append_take_drop_id)

lemma ends_with_suffix [std_simps]: "ends_with s p \<longleftrightarrow> suffix p s"
  by (auto simp: ends_with_def suffix_def) (metis append_take_drop_id)

lemma starts_with_Nil [simp]: "starts_with s []"
  by (simp add: starts_with_def)

lemma strip_prefix_append [simp]: "strip_prefix p (p @ s) = Some s"
  by (simp add: strip_prefix_def starts_with_def)

lemma strip_prefix_SomeD: "strip_prefix p s = Some t \<Longrightarrow> s = p @ t"
  by (auto simp: strip_prefix_def starts_with_def split: if_splits) (metis append_take_drop_id)

lemma contains_sublist [std_simps]: "contains s p \<longleftrightarrow> sublist p s"
  by (induction s p rule: contains.induct) (auto simp: starts_with_prefix sublist_Cons_right)

lemma contains_append: "contains s p \<Longrightarrow> contains (a @ s @ b) p"
  by (auto simp: contains_sublist sublist_appendI intro: sublist_order.order.trans)

lemma split_on_nonempty [simp]: "split_on c s \<noteq> []"
  by (induction c s rule: split_on.induct) (auto split: list.splits)

lemma join_split_on: "join [c] (split_on c s) = s"
proof (induction c s rule: split_on.induct)
  case (1 c)
  then show ?case by simp
next
  case (2 c x s)
  obtain y ys where "split_on c s = y # ys" by (cases "split_on c s") auto
  with 2 show ?case by (cases ys) (auto split: if_splits)
qed

lemma join_Cons: "r \<noteq> [] \<Longrightarrow> join sep (s # r) = s @ sep @ join sep r"
  by (cases r) auto

lemma split_on_fresh: "c \<notin> set s \<Longrightarrow> split_on c s = [s]"
  by (induction c s rule: split_on.induct) auto

lemma split_on_append: "c \<notin> set s \<Longrightarrow> split_on c (s @ c # t) = s # split_on c t"
  by (induction s) auto

lemma split_on_join:
  "parts \<noteq> [] \<Longrightarrow> \<forall>s \<in> set parts. c \<notin> set s \<Longrightarrow> split_on c (join [c] parts) = parts"
  by (induction "[c]" parts rule: join.induct) (auto simp: split_on_fresh split_on_append)

lemma rust_str_join: "rust_str sep \<Longrightarrow> \<forall>s \<in> set parts. rust_str s \<Longrightarrow> rust_str (join sep parts)"
  by (induction sep parts rule: join.induct) (auto simp: rust_str_append)

section \<open>Case, trimming and lines\<close>

definition lower_char :: "char \<Rightarrow> char" where
  "lower_char c =
     (let n = of_char c :: nat in if 65 \<le> n \<and> n \<le> 90 then char_of (n + 32) else c)"

definition to_ascii_lowercase :: "str \<Rightarrow> str" where
  "to_ascii_lowercase s = map lower_char s"

text \<open>\<open>White_Space\<close> characters by the length of their UTF-8 form.\<close>

definition ws1 :: "char \<Rightarrow> bool" where
  "ws1 a = (let n = of_char a :: nat in 9 \<le> n \<and> n \<le> 13 \<or> n = 32)"

definition ws2 :: "char \<Rightarrow> char \<Rightarrow> bool" where
  "ws2 a b = (of_char a = (0xC2 :: nat) \<and> of_char b \<in> {0x85, 0xA0 :: nat})"

definition ws3 :: "char \<Rightarrow> char \<Rightarrow> char \<Rightarrow> bool" where
  "ws3 a b c =
     (let x = of_char a :: nat; y = of_char b :: nat; z = of_char c :: nat in
      x = 0xE1 \<and> y = 0x9A \<and> z = 0x80
      \<or> x = 0xE2 \<and> y = 0x80 \<and> (0x80 \<le> z \<and> z \<le> 0x8A \<or> z = 0xA8 \<or> z = 0xA9 \<or> z = 0xAF)
      \<or> x = 0xE2 \<and> y = 0x81 \<and> z = 0x9F
      \<or> x = 0xE3 \<and> y = 0x80 \<and> z = 0x80)"

fun trim_with ::
  "(char \<Rightarrow> bool) \<Rightarrow> (char \<Rightarrow> char \<Rightarrow> bool) \<Rightarrow> (char \<Rightarrow> char \<Rightarrow> char \<Rightarrow> bool) \<Rightarrow> str \<Rightarrow> str" where
  "trim_with p q r (a # b # c # s) =
     (if p a then trim_with p q r (b # c # s)
      else if q a b then trim_with p q r (c # s)
      else if r a b c then trim_with p q r s
      else a # b # c # s)"
| "trim_with p q r [a, b] =
     (if p a then trim_with p q r [b] else if q a b then [] else [a, b])"
| "trim_with p q r [a] = (if p a then [] else [a])"
| "trim_with p q r [] = []"

definition trim_start :: "str \<Rightarrow> str" where
  "trim_start s = trim_with ws1 ws2 ws3 s"

definition trim_end :: "str \<Rightarrow> str" where
  "trim_end s = rev (trim_with ws1 (\<lambda>a b. ws2 b a) (\<lambda>a b c. ws3 c b a) (rev s))"

definition trim :: "str \<Rightarrow> str" where
  "trim s = trim_end (trim_start s)"

text \<open>\<open>trim_start_matches\<close> and \<open>trim_end_matches\<close> with a character pattern.\<close>

definition trim_start_char :: "char \<Rightarrow> str \<Rightarrow> str" where
  "trim_start_char c s = dropWhile (\<lambda>x. x = c) s"

definition trim_end_char :: "char \<Rightarrow> str \<Rightarrow> str" where
  "trim_end_char c s = rev (dropWhile (\<lambda>x. x = c) (rev s))"

lemma dropWhile_other: "c \<notin> set s \<Longrightarrow> dropWhile (\<lambda>x. x = c) s = s"
  by (cases s) auto

lemma trim_chars_id: "c \<notin> set s \<Longrightarrow> d \<notin> set s \<Longrightarrow> trim_end_char d (trim_start_char c s) = s"
  by (simp add: trim_start_char_def trim_end_char_def dropWhile_other)

definition NL :: char where
  "NL = CHR 0x0A"

definition CR :: char where
  "CR = CHR 0x0D"

definition strip_cr :: "str \<Rightarrow> str" where
  "strip_cr s = (if s \<noteq> [] \<and> last s = CR then butlast s else s)"

fun lines_from :: "str \<Rightarrow> str \<Rightarrow> str list" where
  "lines_from cur [] = (if cur = [] then [] else [cur])"
| "lines_from cur (c # s) =
     (if c = NL then strip_cr cur # lines_from [] s else lines_from (cur @ [c]) s)"

definition str_lines :: "str \<Rightarrow> str list" where
  "str_lines s = lines_from [] s"

lemma lines_from_append: "NL \<notin> set s \<Longrightarrow> lines_from cur (s @ t) = lines_from (cur @ s) t"
  by (induction s arbitrary: cur) auto

lemma lines_from_line: "NL \<notin> set s \<Longrightarrow> lines_from cur (s @ NL # t) = strip_cr (cur @ s) # lines_from [] t"
  by (simp add: lines_from_append)

text \<open>A line that \<open>lines\<close> gives back as it is, wherever it stands.\<close>

definition plain_line :: "str \<Rightarrow> bool" where
  "plain_line s \<longleftrightarrow> s \<noteq> [] \<and> NL \<notin> set s \<and> last s \<noteq> CR"

lemma str_lines_join: "\<forall>s \<in> set ls. plain_line s \<Longrightarrow> str_lines (join [NL] ls) = ls"
proof (induction "[NL]" ls rule: join.induct)
  case (2 s)
  then show ?case
    using lines_from_append [of s "[]" "[]"] by (auto simp: str_lines_def plain_line_def)
qed (auto simp: str_lines_def plain_line_def lines_from_line strip_cr_def)

text \<open>Trimming leaves a text alone whose ends are ASCII and no white space, and skips leading blanks.\<close>

definition solid :: "char \<Rightarrow> bool" where
  "solid c \<longleftrightarrow> of_char c < (128 :: nat) \<and> \<not> ws1 c"

lemma trim_with_id:
  "s \<noteq> [] \<Longrightarrow> \<not> p (hd s) \<Longrightarrow> \<forall>b. \<not> q (hd s) b \<Longrightarrow> \<forall>b c. \<not> r (hd s) b c \<Longrightarrow> trim_with p q r s = s"
  by (induction p q r s rule: trim_with.induct) auto

lemma trim_with_skip: "p a \<Longrightarrow> trim_with p q r (a # s) = trim_with p q r s"
  by (cases s; cases "tl s") auto

lemma solid_ws: "solid c \<Longrightarrow> \<not> ws1 c \<and> \<not> ws2 c b \<and> \<not> ws2 b c \<and> \<not> ws3 c a b \<and> \<not> ws3 b a c"
  by (auto simp: solid_def ws2_def ws3_def Let_def)

lemma trim_id: "s \<noteq> [] \<Longrightarrow> solid (hd s) \<Longrightarrow> solid (last s) \<Longrightarrow> trim s = s"
  by (simp add: trim_def trim_start_def trim_end_def trim_with_id solid_ws hd_rev)

lemma trim_blanks: "trim (replicate k (CHR '' '') @ s) = trim s"
proof (induction k)
  case (Suc k)
  have "ws1 (CHR '' '')" by (simp add: ws1_def)
  with Suc show ?case by (simp add: trim_def trim_start_def trim_with_skip)
qed simp

section \<open>Decimal numbers\<close>

definition digit_char :: "nat \<Rightarrow> char" where
  "digit_char d = char_of (48 + d)"

lemma digit_chars [std_simps]:
  "digit_char 0 = CHR ''0''" "digit_char (Suc 0) = CHR ''1''" "digit_char 2 = CHR ''2''"
  "digit_char 3 = CHR ''3''" "digit_char 4 = CHR ''4''" "digit_char 5 = CHR ''5''"
  "digit_char 6 = CHR ''6''" "digit_char 7 = CHR ''7''" "digit_char 8 = CHR ''8''"
  "digit_char 9 = CHR ''9''"
  by (simp_all add: digit_char_def char_of_def bit_0)

fun dec :: "nat \<Rightarrow> str" where
  "dec n = (if n < 10 then [digit_char n] else dec (n div 10) @ [digit_char (n mod 10)])"

declare dec.simps [simp del]

fun parse_digits :: "nat \<Rightarrow> str \<Rightarrow> nat option" where
  "parse_digits acc [] = Some acc"
| "parse_digits acc (c # s) =
     (let n = of_char c :: nat in
      if 48 \<le> n \<and> n \<le> 57 then parse_digits (10 * acc + (n - 48)) s else None)"

text \<open>\<open>str::parse::<u64>\<close>: an optional plus sign, then digits whose value fits.\<close>

definition parse_u64 :: "str \<Rightarrow> u64 option" where
  "parse_u64 s =
     (let d = (if starts_with s ''+'' then drop 1 s else s) in
      if d = [] then None
      else case parse_digits 0 d of
        None \<Rightarrow> None
      | Some n \<Rightarrow> if n < 2 ^ 64 then Some (word_of_nat n) else None)"

lemma of_char_digit: "d < 10 \<Longrightarrow> (of_char (digit_char d) :: nat) = 48 + d"
  by (simp add: digit_char_def of_char_of)

lemma parse_digits_append:
  "parse_digits acc (s @ t) = Option.bind (parse_digits acc s) (\<lambda>n. parse_digits n t)"
  by (induction acc s rule: parse_digits.induct) (auto simp: Let_def)

lemma parse_digits_dec: "parse_digits 0 (dec n) = Some n"
proof (induction n rule: dec.induct)
  case (1 n)
  show ?case
  proof (cases "n < 10")
    case True
    then show ?thesis by (simp add: dec.simps [of n] of_char_digit Let_def)
  next
    case False
    then have "n mod 10 < 10" by simp
    with False 1 show ?thesis
      by (simp add: dec.simps [of n] parse_digits_append of_char_digit Let_def)
  qed
qed

lemma dec_nonempty [simp]: "dec n \<noteq> []"
  by (simp add: dec.simps [of n])

lemma dec_first_digit: "\<exists>d < 10. hd (dec n) = digit_char d"
proof (induction n rule: dec.induct)
  case (1 n)
  then show ?case
    by (cases "n < 10") (auto simp: dec.simps [of n] hd_append)
qed

lemma dec_digits: "c \<in> set (dec n) \<Longrightarrow> \<exists>d < 10. c = digit_char d"
proof (induction n rule: dec.induct)
  case (1 n)
  have "n mod 10 < 10" by simp
  with 1 show ?case
    by (cases "n < 10") (auto simp del: mod_less_divisor simp: dec.simps [of n])
qed

lemma dec_code: "c \<in> set (dec n) \<Longrightarrow> 48 \<le> (of_char c :: nat) \<and> of_char c < (58 :: nat)"
  using dec_digits [of c n] by (auto simp: of_char_digit)

lemma dec_ascii: "c \<in> set (dec n) \<Longrightarrow> of_char c < (128 :: nat)"
  using dec_code [of c n] by simp

lemma solid_dec: "c \<in> set (dec n) \<Longrightarrow> solid c"
  using dec_code [of c n] by (simp add: solid_def ws1_def Let_def)

lemma dec_not_plus: "\<not> starts_with (dec n) ''+''"
proof
  assume "starts_with (dec n) ''+''"
  then have "hd (dec n) = CHR ''+''"
    by (cases "dec n") (auto simp: starts_with_def)
  then obtain d where "d < 10" "digit_char d = CHR ''+''" using dec_first_digit by metis
  then have "48 + d = (of_char CHR ''+'' :: nat)" using of_char_digit by metis
  then show False by simp
qed

lemma parse_u64_dec: "n < 2 ^ 64 \<Longrightarrow> parse_u64 (dec n) = Some (word_of_nat n)"
  using dec_not_plus [of n] by (simp add: parse_u64_def parse_digits_dec)

lemma dec_inject [simp]: "dec m = dec n \<longleftrightarrow> m = n"
  by (metis parse_digits_dec option.inject)

section \<open>Paths\<close>

text \<open>\<open>PathBuf::join\<close>: an absolute key replaces the directory.\<close>

definition path_join :: "str \<Rightarrow> str \<Rightarrow> str" where
  "path_join dir k =
     (if starts_with k ''/'' then k
      else if dir = [] \<or> ends_with dir ''/'' then dir @ k else dir @ ''/'' @ k)"

lemma path_join_inject:
  "\<not> starts_with j ''/'' \<Longrightarrow> \<not> starts_with k ''/'' \<Longrightarrow> path_join d j = path_join d k \<longleftrightarrow> j = k"
  by (simp add: path_join_def)

end
