(* ===== verification/Http.thy ===== *)
theory Http
  imports Rust_Str
begin

text \<open>
  The HTTP vocabulary of the third-party crates \<open>url\<close>, \<open>http\<close> and \<open>hyper\<close>. Their code is not
  part of the repository: a \<open>Url\<close> and a \<open>HeaderMap\<close> are type parameters, and the functions the
  program calls on them are the fields of the records \<open>url_ops\<close> and \<open>header_ops\<close>, which the
  definitions that use them take as arguments. What the crates document of these functions, where
  a theorem needs it, is \<open>header_laws\<close> and the \<open>url\<close> laws; two small instances show that they can
  hold, and carry the witnesses.
\<close>

section \<open>Interfaces of the crates\<close>

record 'u url_ops =
  url_parse :: "str \<Rightarrow> 'u option"
  url_as_str :: "'u \<Rightarrow> str"
  url_scheme :: "'u \<Rightarrow> str"
  url_host_str :: "'u \<Rightarrow> str option"
  url_port :: "'u \<Rightarrow> u16 option"
  url_path :: "'u \<Rightarrow> str"
  url_query_pairs :: "'u \<Rightarrow> (str \<times> str) list"
  url_set_fragment :: "str option \<Rightarrow> 'u \<Rightarrow> 'u"
  url_set_port :: "u16 option \<Rightarrow> 'u \<Rightarrow> 'u"

text \<open>
  Header names are the lower-case strings \<open>HeaderName::as_str\<close> returns, header values are bytes.
  \<open>hm_iter\<close> is the order in which the map's iterator yields its pairs; \<open>hv_to_str\<close> is
  \<open>HeaderValue::to_str\<close>, \<open>hv_from_str\<close> and \<open>hn_parse\<close> the fallible constructors.
\<close>

record 'h header_ops =
  hm_new :: 'h
  hm_iter :: "'h \<Rightarrow> (str \<times> bytes) list"
  hm_append :: "str \<Rightarrow> bytes \<Rightarrow> 'h \<Rightarrow> 'h"
  hm_insert :: "str \<Rightarrow> bytes \<Rightarrow> 'h \<Rightarrow> 'h"
  hm_remove :: "str \<Rightarrow> 'h \<Rightarrow> 'h"
  hm_get :: "str \<Rightarrow> 'h \<Rightarrow> bytes option"
  hm_contains_key :: "str \<Rightarrow> 'h \<Rightarrow> bool"
  hv_to_str :: "bytes \<Rightarrow> str option"
  hv_from_str :: "str \<Rightarrow> bytes option"
  hn_parse :: "str \<Rightarrow> str option"

text \<open>The values a header map holds for a name, in order.\<close>

definition hm_values :: "'h header_ops \<Rightarrow> 'h \<Rightarrow> str \<Rightarrow> bytes list" where
  "hm_values H h n = map snd (filter (\<lambda>p. fst p = n) (hm_iter H h))"

text \<open>The documented behaviour of \<open>HeaderMap\<close> as a multimap.\<close>

definition header_laws :: "'h header_ops \<Rightarrow> bool" where
  "header_laws H \<longleftrightarrow>
     hm_iter H (hm_new H) = []
     \<and> (\<forall>n v h m. hm_values H (hm_append H n v h) m
          = (if m = n then hm_values H h n @ [v] else hm_values H h m))
     \<and> (\<forall>n v h m. hm_values H (hm_insert H n v h) m = (if m = n then [v] else hm_values H h m))
     \<and> (\<forall>n h m. hm_values H (hm_remove H n h) m = (if m = n then [] else hm_values H h m))
     \<and> (\<forall>n h. hm_get H n h
          = (case hm_values H h n of [] \<Rightarrow> None | v # _ \<Rightarrow> Some v))
     \<and> (\<forall>n h. hm_contains_key H n h \<longleftrightarrow> hm_values H h n \<noteq> [])"

text \<open>
  The documented behaviour of the text conversions: a value that reads as text is rebuilt from
  that text, and a name taken from a map parses to itself.
\<close>

definition header_text_laws :: "'h header_ops \<Rightarrow> bool" where
  "header_text_laws H \<longleftrightarrow>
     (\<forall>v s. hv_to_str H v = Some s \<longrightarrow> hv_from_str H s = Some v)
     \<and> (\<forall>h p. p \<in> set (hm_iter H h) \<longrightarrow> hn_parse H (fst p) = Some (fst p))"

lemma hm_values_new: "header_laws H \<Longrightarrow> hm_values H (hm_new H) n = []"
  by (simp add: header_laws_def hm_values_def)

lemma hm_values_append:
  "header_laws H \<Longrightarrow> hm_values H (hm_append H n v h) m
     = (if m = n then hm_values H h n @ [v] else hm_values H h m)"
  by (simp add: header_laws_def)

lemma hm_values_insert:
  "header_laws H \<Longrightarrow> hm_values H (hm_insert H n v h) m = (if m = n then [v] else hm_values H h m)"
  by (simp add: header_laws_def)

lemma hm_values_remove:
  "header_laws H \<Longrightarrow> hm_values H (hm_remove H n h) m = (if m = n then [] else hm_values H h m)"
  by (simp add: header_laws_def)

lemma hm_get_values:
  "header_laws H \<Longrightarrow> hm_get H n h = (case hm_values H h n of [] \<Rightarrow> None | v # _ \<Rightarrow> Some v)"
  by (simp add: header_laws_def)

lemma hm_contains_values: "header_laws H \<Longrightarrow> hm_contains_key H n h \<longleftrightarrow> hm_values H h n \<noteq> []"
  by (simp add: header_laws_def)

lemmas hm_laws = hm_values_new hm_values_append hm_values_insert hm_values_remove
  hm_get_values hm_contains_values

text \<open>Building a map by appending pairs one after the other.\<close>

definition hm_extend :: "'h header_ops \<Rightarrow> (str \<times> bytes) list \<Rightarrow> 'h \<Rightarrow> 'h" where
  "hm_extend H ps h = foldl (\<lambda>m p. hm_append H (fst p) (snd p) m) h ps"

lemma hm_values_extend:
  "header_laws H \<Longrightarrow> hm_values H (hm_extend H ps h) n
     = hm_values H h n @ map snd (filter (\<lambda>p. fst p = n) ps)"
  by (induction ps arbitrary: h) (auto simp: hm_extend_def hm_values_append)

section \<open>Instances for the witnesses\<close>

text \<open>A header map as the list of its pairs; text is visible ASCII.\<close>

definition ascii_text :: "bytes \<Rightarrow> str option" where
  "ascii_text v = (if \<forall>b \<in> set v. 32 \<le> b \<and> b < 127 then Some (of_bytes v) else None)"

definition alist_headers :: "(str \<times> bytes) list header_ops" where
  "alist_headers =
     \<lparr>hm_new = [], hm_iter = (\<lambda>h. h),
      hm_append = (\<lambda>n v h. h @ [(n, v)]),
      hm_insert = (\<lambda>n v h. filter (\<lambda>p. fst p \<noteq> n) h @ [(n, v)]),
      hm_remove = (\<lambda>n h. filter (\<lambda>p. fst p \<noteq> n) h),
      hm_get = (\<lambda>n h. map_of h n),
      hm_contains_key = (\<lambda>n h. map_of h n \<noteq> None),
      hv_to_str = ascii_text, hv_from_str = (\<lambda>s. Some (as_bytes s)), hn_parse = Some\<rparr>"

lemma filter_other_name:
  "m \<noteq> n \<Longrightarrow> filter (\<lambda>p. fst p \<noteq> n \<and> fst p = m) h = filter (\<lambda>p. fst p = m) h"
  by (rule filter_cong) auto

lemma map_of_filter_hd:
  "map_of h n = (case map snd (filter (\<lambda>p. fst p = n) h) of [] \<Rightarrow> None | v # _ \<Rightarrow> Some v)"
  by (induction h) auto

lemma alist_header_laws: "header_laws alist_headers"
  unfolding header_laws_def hm_values_def alist_headers_def
  by (auto simp: filter_other_name map_of_filter_hd split: list.splits)

lemma alist_header_text_laws: "header_text_laws alist_headers"
  by (auto simp: header_text_laws_def alist_headers_def ascii_text_def split: if_splits)

text \<open>A URL as its parts, parsing only the URLs of a given table.\<close>

record part_url =
  pu_scheme :: str
  pu_host :: str
  pu_port :: "u16 option"
  pu_path :: str
  pu_query :: "(str \<times> str) list"
  pu_fragment :: "str option"

definition part_url_str :: "part_url \<Rightarrow> str" where
  "part_url_str u =
     pu_scheme u @ ''://'' @ pu_host u
     @ (case pu_port u of None \<Rightarrow> [] | Some p \<Rightarrow> '':'' @ dec (unat p))
     @ pu_path u
     @ (if pu_query u = [] then []
        else ''?'' @ join ''&'' (map (\<lambda>(k, v). k @ ''='' @ v) (pu_query u)))
     @ (case pu_fragment u of None \<Rightarrow> [] | Some f \<Rightarrow> ''#'' @ f)"

definition part_urls :: "(str \<times> part_url) list \<Rightarrow> part_url url_ops" where
  "part_urls table =
     \<lparr>url_parse = map_of table, url_as_str = part_url_str, url_scheme = pu_scheme,
      url_host_str = (\<lambda>u. Some (pu_host u)), url_port = pu_port, url_path = pu_path,
      url_query_pairs = pu_query,
      url_set_fragment = (\<lambda>f u. u\<lparr>pu_fragment := f\<rparr>),
      url_set_port = (\<lambda>p u. u\<lparr>pu_port := p\<rparr>)\<rparr>"

definition https_url :: "str \<Rightarrow> str \<Rightarrow> part_url" where
  "https_url host path =
     \<lparr>pu_scheme = ''https'', pu_host = host, pu_port = None, pu_path = path, pu_query = [],
      pu_fragment = None\<rparr>"

end
