(* ===== verification/Pack.thy ===== *)
theory Pack
  imports Utf8
begin

text \<open>
  The pack (\<open>src/src/pack.rs\<close>): one buffer holding many small objects. The container is the
  magic number followed by records, each a 4-byte key length, the key, an 8-byte body length and
  the body.
\<close>

section \<open>Definitions\<close>

type_synonym obj = "str \<times> bytes"

definition pack_magic :: bytes where
  "pack_magic = as_bytes ''CICP''"

definition pack_record :: "obj \<Rightarrow> bytes" where
  "pack_record ob =
     u32_to_le (word_of_nat (length (fst ob))) @ as_bytes (fst ob)
     @ u64_to_le (word_of_nat (length (snd ob))) @ snd ob"

text \<open>
  The loop of \<open>encode\<close>, with the buffer as accumulator. The sizes are those of buffers in
  memory, so the addition of the guard is exact; \<open>max_bytes\<close> is the code's \<open>u64\<close>.
\<close>

fun pack_encode_loop :: "obj list \<Rightarrow> u64 \<Rightarrow> bytes \<Rightarrow> bytes" where
  "pack_encode_loop [] max_bytes out = out"
| "pack_encode_loop ((key, body) # objects) max_bytes out =
     (let record = 4 + length key + 8 + length body in
      if length out + record > unat max_bytes then pack_encode_loop objects max_bytes out
      else pack_encode_loop objects max_bytes (out @ pack_record (key, body)))"

definition pack_encode :: "obj list \<Rightarrow> u64 \<Rightarrow> bytes" where
  "pack_encode objects max_bytes = pack_encode_loop objects max_bytes pack_magic"

text \<open>
  The loop of \<open>decode\<close>. \<open>at\<close> is a \<open>usize\<close>; the one addition whose operand is read from the
  buffer at full width, \<open>at + body_len\<close>, wraps in the release profile, and the slice it then
  delimits ends before it starts, which \<open>Bytes::slice\<close> answers with a panic.
\<close>

function pack_decode_loop :: "bytes \<Rightarrow> nat \<Rightarrow> obj list \<Rightarrow> obj list res" where
  "pack_decode_loop raw at objects =
     (if at + 4 \<le> length raw then
        let key_len = unat (u32_from_le (subslice raw at (at + 4))); at1 = at + 4 in
        if at1 + key_len + 8 > length raw then Ok objects
        else case from_utf8 (subslice raw at1 (at1 + key_len)) of
          None \<Rightarrow> Ok objects
        | Some key \<Rightarrow>
            let at2 = at1 + key_len;
                body_len = unat (u64_from_le (subslice raw at2 (at2 + 8)));
                at3 = at2 + 8;
                stop = (at3 + body_len) mod 2 ^ 64 in
            if stop > length raw then Ok objects
            else if stop < at3 then Panic
            else pack_decode_loop raw stop (objects @ [(key, subslice raw at3 stop)])
      else Ok objects)"
  by pat_completeness auto
termination
  by (relation "measure (\<lambda>(raw, at, objects). length raw - at)") auto

declare pack_decode_loop.simps [simp del]

definition pack_decode :: "bytes \<Rightarrow> obj list res" where
  "pack_decode raw =
     (if length raw < length pack_magic \<or> take (length pack_magic) raw \<noteq> pack_magic
      then Err ''not a cicache pack''
      else pack_decode_loop raw (length pack_magic) [])"

section \<open>Specification\<close>

text \<open>The objects \<open>encode\<close> keeps: greedily, those that still fit when their turn comes.\<close>

fun record_size :: "obj \<Rightarrow> nat" where
  "record_size (key, body) = 4 + length key + 8 + length body"

fun pack_kept :: "obj list \<Rightarrow> u64 \<Rightarrow> nat \<Rightarrow> obj list" where
  "pack_kept [] max_bytes n = []"
| "pack_kept (ob # objects) max_bytes n =
     (if n + record_size ob > unat max_bytes then pack_kept objects max_bytes n
      else ob # pack_kept objects max_bytes (n + record_size ob))"

text \<open>Objects whose parts the format can represent: a \<open>String\<close> key and lengths that fit.\<close>

definition packable :: "obj \<Rightarrow> bool" where
  "packable ob \<longleftrightarrow> rust_str (fst ob) \<and> length (fst ob) < 2 ^ 32 \<and> length (snd ob) < 2 ^ 63"

definition records :: "obj list \<Rightarrow> bytes" where
  "records objects = concat (map pack_record objects)"

section \<open>Encoding\<close>

lemma length_pack_magic [simp]: "length pack_magic = 4"
  by (simp add: pack_magic_def)

lemma length_pack_record [simp]: "length (pack_record ob) = record_size ob"
  by (cases ob) (simp add: pack_record_def)

lemma records_Nil [simp]: "records [] = []"
  by (simp add: records_def)

lemma records_Cons [simp]: "records (ob # obs) = pack_record ob @ records obs"
  by (simp add: records_def)

lemma records_append [simp]: "records (xs @ ys) = records xs @ records ys"
  by (simp add: records_def)

lemma pack_encode_loop_eq:
  "pack_encode_loop objects max_bytes out
     = out @ records (pack_kept objects max_bytes (length out))"
  by (induction objects max_bytes out rule: pack_encode_loop.induct)
    (auto simp: Let_def add.commute add.left_commute)

lemma pack_encode_eq:
  "pack_encode objects max_bytes = pack_magic @ records (pack_kept objects max_bytes 4)"
  by (simp add: pack_encode_def pack_encode_loop_eq)

lemma pack_kept_bound:
  "n \<le> unat max_bytes \<Longrightarrow> n + length (records (pack_kept objects max_bytes n)) \<le> unat max_bytes"
  by (induction objects max_bytes n rule: pack_kept.induct) (auto simp: not_less add.assoc)

lemma pack_kept_subseq: "subseq (pack_kept objects max_bytes n) objects"
  by (induction objects max_bytes n rule: pack_kept.induct) auto

lemma pack_kept_all:
  "n + length (records objects) \<le> unat max_bytes \<Longrightarrow> pack_kept objects max_bytes n = objects"
  by (induction objects max_bytes n rule: pack_kept.induct) auto

section \<open>Decoding\<close>

lemma pack_decode_loop_stop:
  "length raw < at + 4 \<Longrightarrow> pack_decode_loop raw at objects = Ok objects"
  by (subst pack_decode_loop.simps) simp

text \<open>The fields in front of a body, as the loop reads them from inside a buffer.\<close>

definition frame :: "str \<Rightarrow> u64 \<Rightarrow> bytes" where
  "frame key len = u32_to_le (word_of_nat (length key)) @ as_bytes key @ u64_to_le len"

lemma length_frame [simp]: "length (frame key len) = 12 + length key"
  by (simp add: frame_def)

lemma pack_record_frame: "pack_record (key, body) = frame key (word_of_nat (length body)) @ body"
  by (simp add: pack_record_def frame_def)

lemma frame_fields:
  assumes key: "rust_str key" "length key < 2 ^ 32" and at: "at = length p"
    and raw: "raw = p @ frame key len @ r"
  shows "unat (u32_from_le (subslice raw at (at + 4))) = length key" (is ?key_len)
    and "from_utf8 (subslice raw (at + 4) (at + 4 + length key)) = Some key" (is ?name)
    and "u64_from_le (subslice raw (at + 4 + length key) (at + 4 + length key + 8)) = len"
      (is ?body_len)
proof -
  let ?k = "u32_to_le (word_of_nat (length key))"
  show ?key_len
    using le32.field_at [of at p "at + 4" "word_of_nat (length key)"] at raw key
    by (simp add: frame_def)
  have "subslice raw (at + 4) (at + 4 + length key) = as_bytes key"
    using subslice_middle [of "at + 4" "p @ ?k" _ "as_bytes key"] at raw
    by (simp add: frame_def)
  then show ?name
    using key by (simp add: from_utf8_rust_str)
  show ?body_len
    using le64.field_at [of "at + 4 + length key" "p @ ?k @ as_bytes key" _ len] at raw
    by (simp add: frame_def add.assoc)
qed

lemma pack_record_fields:
  assumes ob: "packable (key, body)" and at: "at = length p"
    and raw: "raw = p @ pack_record (key, body) @ r"
  shows "unat (u32_from_le (subslice raw at (at + 4))) = length key"
    and "from_utf8 (subslice raw (at + 4) (at + 4 + length key)) = Some key"
    and "unat (u64_from_le (subslice raw (at + 4 + length key) (at + 4 + length key + 8)))
      = length body"
    and "subslice raw (at + 4 + length key + 8) (at + 4 + length key + 8 + length body) = body"
proof -
  have ob': "rust_str key" "length key < 2 ^ 32" "length body < 2 ^ 64"
    using ob by (auto simp: packable_def)
  have raw': "raw = p @ frame key (word_of_nat (length body)) @ body @ r"
    using raw by (simp add: pack_record_frame)
  note fields = frame_fields [OF ob'(1,2) at raw']
  show "unat (u32_from_le (subslice raw at (at + 4))) = length key"
    "from_utf8 (subslice raw (at + 4) (at + 4 + length key)) = Some key"
    by (fact fields)+
  show "unat (u64_from_le (subslice raw (at + 4 + length key) (at + 4 + length key + 8)))
      = length body"
    using fields(3) ob'(3) by simp
  show "subslice raw (at + 4 + length key + 8) (at + 4 + length key + 8 + length body) = body"
    using subslice_middle [of "at + 4 + length key + 8" "p @ frame key (word_of_nat (length body))"
        "at + 4 + length key + 8 + length body" body r] at raw'
    by simp
qed

text \<open>One intact record is read and the loop goes on behind it.\<close>

lemma pack_decode_loop_record:
  assumes ob: "packable (key, body)" and at: "at = length p"
    and raw: "raw = p @ pack_record (key, body) @ r" and fits: "length raw < 2 ^ 63"
  shows "pack_decode_loop raw at objects
    = pack_decode_loop raw (at + record_size (key, body)) (objects @ [(key, body)])"
proof -
  note fields = pack_record_fields [OF ob at raw]
  let ?s = "at + 4 + length key + 8 + length body"
  have size: "?s \<le> length raw" using at raw by simp
  then have exact: "?s mod 2 ^ 64 = ?s" using fits by simp
  from size have guards: "at + 4 \<le> length raw" "\<not> at + 4 + length key + 8 > length raw"
    "\<not> ?s > length raw" "\<not> ?s < at + 4 + length key + 8"
    by auto
  have stop: "at + record_size (key, body) = ?s" by simp
  show ?thesis
    unfolding stop
    by (subst pack_decode_loop.simps)
      (simp only: Let_def fields exact guards option.case if_True if_False not_False_eq_True)
qed

text \<open>A record cut short ends the loop with what was read before it.\<close>

lemma pack_decode_loop_cut:
  assumes ob: "packable (key, body)" and at: "at = length p"
    and cut: "n < at + record_size (key, body)"
    and raw: "raw = take n (p @ pack_record (key, body) @ r)"
    and fits: "length p + record_size (key, body) < 2 ^ 63"
  shows "pack_decode_loop raw at objects = Ok objects"
proof (cases "at + 4 + length key + 8 \<le> length raw")
  case False
  show ?thesis
  proof (cases "at + 4 \<le> length raw")
    case True
    then have "at + 4 \<le> n" using raw by simp
    then have "unat (u32_from_le (subslice raw at (at + 4))) = length key"
      using pack_record_fields(1) [OF ob at refl] raw
      by (simp add: subslice_take del: take_append)
    with False True show ?thesis
      by (subst pack_decode_loop.simps) (simp add: Let_def)
  qed (simp add: pack_decode_loop_stop)
next
  case True
  note fields = pack_record_fields [OF ob at refl, of r]
  let ?s = "at + 4 + length key + 8 + length body"
  have "length raw \<le> n" using raw by (simp del: take_append)
  then have n: "at + 4 + length key + 8 \<le> n" "length raw \<le> n" using True by auto
  then have read: "unat (u32_from_le (subslice raw at (at + 4))) = length key"
    "from_utf8 (subslice raw (at + 4) (at + 4 + length key)) = Some key"
    "unat (u64_from_le (subslice raw (at + 4 + length key) (at + 4 + length key + 8)))
      = length body"
    using fields(1-3) raw by (simp_all add: subslice_take del: take_append)
  have exact: "?s mod 2 ^ 64 = ?s" using fits at by simp
  have guards: "at + 4 \<le> length raw" "\<not> at + 4 + length key + 8 > length raw" "?s > length raw"
    using True n cut by auto
  show ?thesis
    by (subst pack_decode_loop.simps)
      (simp only: Let_def read exact guards option.case if_True if_False)
qed

lemma pack_decode_loop_records:
  assumes "\<forall>ob \<in> set obs. packable ob" "at = length p" "raw = p @ records obs @ r"
    "length raw < 2 ^ 63"
  shows "pack_decode_loop raw at acc
    = pack_decode_loop raw (at + length (records obs)) (acc @ obs)"
  using assms
proof (induction obs arbitrary: p at acc)
  case Nil
  then show ?case by simp
next
  case (Cons ob obs)
  obtain key body where ob: "ob = (key, body)" by fastforce
  have "pack_decode_loop raw at acc = pack_decode_loop raw (at + record_size ob) (acc @ [ob])"
    using Cons.prems pack_decode_loop_record [of key body at p raw "records obs @ r" acc]
    unfolding ob by simp
  also have "\<dots> = pack_decode_loop raw (at + record_size ob + length (records obs)) ((acc @ [ob]) @ obs)"
    using Cons.prems by (intro Cons.IH [of _ "p @ pack_record ob"]) auto
  finally show ?case by (simp add: add.assoc)
qed

text \<open>The objects whose records lie in the first \<open>n\<close> bytes of a record sequence.\<close>

fun intact :: "obj list \<Rightarrow> nat \<Rightarrow> obj list" where
  "intact [] n = []"
| "intact (ob # objects) n =
     (if record_size ob \<le> n then ob # intact objects (n - record_size ob) else [])"

lemma intact_prefix: "prefix (intact objects n) objects"
  by (induction objects n rule: intact.induct) auto

lemma intact_all: "length (records objects) \<le> n \<Longrightarrow> intact objects n = objects"
  by (induction objects n rule: intact.induct) auto

lemma pack_decode_loop_truncated:
  assumes "\<forall>ob \<in> set obs. packable ob" "at = length p"
    "raw = take (at + n) (p @ records obs)" "length p + length (records obs) < 2 ^ 63"
  shows "pack_decode_loop raw at acc = Ok (acc @ intact obs n)"
  using assms
proof (induction obs arbitrary: p at acc n)
  case Nil
  then show ?case by (simp add: pack_decode_loop_stop)
next
  case (Cons ob obs)
  obtain key body where ob: "ob = (key, body)" by fastforce
  show ?case
  proof (cases "record_size ob \<le> n")
    case True
    have "pack_decode_loop raw at acc = pack_decode_loop raw (at + record_size ob) (acc @ [ob])"
      using Cons.prems True
        pack_decode_loop_record [of key body at p raw "take (n - record_size ob) (records obs)" acc]
      unfolding ob by simp
    also have "\<dots> = Ok ((acc @ [ob]) @ intact obs (n - record_size ob))"
      using Cons.prems True by (intro Cons.IH [of _ "p @ pack_record ob"]) auto
    finally show ?thesis using True by simp
  next
    case False
    then show ?thesis
      using Cons.prems pack_decode_loop_cut [of key body at p "at + n" raw "records obs" acc]
      unfolding ob by simp
  qed
qed

text \<open>Whatever the loop returns, it read off the buffer: the records are there, back to back.\<close>

lemma frame_of_buffer:
  assumes "at + 4 + k + 8 \<le> length raw" "unat (u32_from_le (subslice raw at (at + 4))) = k"
    "from_utf8 (subslice raw (at + 4) (at + 4 + k)) = Some key"
  shows "take (12 + k) (drop at raw)
      = frame key (u64_from_le (subslice raw (at + 4 + k) (at + 4 + k + 8)))" (is "?l = ?r")
    and "length key = k"
proof -
  have name: "subslice raw (at + 4) (at + 4 + k) = as_bytes key"
    using from_utf8_SomeD [OF assms(3)] by simp
  then have "length (subslice raw (at + 4) (at + 4 + k)) = length key" by simp
  then show k: "length key = k"
    using assms(1) by (simp add: length_subslice)
  have "word_of_nat k = u32_from_le (subslice raw at (at + 4))"
    by (simp flip: assms(2))
  then have "u32_to_le (word_of_nat k) = subslice raw at (at + 4)"
    using assms(1) by (simp add: le32.to_from_le length_subslice)
  moreover have "u64_to_le (u64_from_le (subslice raw (at + 4 + k) (at + 4 + k + 8)))
      = subslice raw (at + 4 + k) (at + 4 + k + 8)"
    using assms(1) by (simp add: le64.to_from_le length_subslice)
  ultimately have "?r = subslice raw at (at + 4) @ subslice raw (at + 4) (at + 4 + k)
      @ subslice raw (at + 4 + k) (at + 4 + k + 8)"
    using name k by (simp add: frame_def)
  also have "\<dots> = ?l"
    using take_add [of "4 + k" 8 "drop at raw"] take_add [of 4 k "drop at raw"]
    by (simp add: subslice_def add.commute add.left_commute)
  finally show "?l = ?r" ..
qed

lemma no_wrap:
  fixes a b n :: nat
  assumes "a < 2 ^ 63" "b < 2 ^ 64" "a \<le> (a + b) mod 2 ^ 64"
  shows "(a + b) mod 2 ^ 64 = a + b"
  using assms by (cases "a + b < 2 ^ 64") (auto simp: le_mod_geq)

lemma pack_decode_loop_sound:
  assumes "pack_decode_loop raw at acc = Ok obs" "at \<le> length raw" "length raw < 2 ^ 63"
  shows "\<exists>new. obs = acc @ new \<and> prefix (records new) (drop at raw) \<and> (\<forall>ob \<in> set new. packable ob)"
  using assms
proof (induction raw at acc rule: pack_decode_loop.induct)
  case (1 raw at acc)
  let ?k = "unat (u32_from_le (subslice raw at (at + 4)))"
  let ?len = "u64_from_le (subslice raw (at + 4 + ?k) (at + 4 + ?k + 8))"
  let ?at3 = "at + 4 + ?k + 8"
  let ?stop = "(?at3 + unat ?len) mod 2 ^ 64"
  let ?name = "from_utf8 (subslice raw (at + 4) (at + 4 + ?k))"
  note unfolded = "1.prems"(1)[unfolded pack_decode_loop.simps [of raw at acc] Let_def]
  show ?case
  proof (cases "at + 4 \<le> length raw \<and> ?at3 \<le> length raw \<and> ?name \<noteq> None \<and> ?stop \<le> length raw")
    case False
    then have "obs = acc"
      using unfolded by (auto split: if_splits option.splits)
    then show ?thesis by simp
  next
    case True
    then obtain key where key: "?name = Some key" by blast
    from True have guards: "at + 4 \<le> length raw" "\<not> ?at3 > length raw" "\<not> ?stop > length raw"
      by auto
    have "\<not> ?stop < ?at3"
      using unfolded guards key by (auto split: if_splits)
    have stop: "?stop = ?at3 + unat ?len"
      using True \<open>\<not> ?stop < ?at3\<close> "1.prems"(3) by (intro no_wrap) auto
    define body where "body = subslice raw ?at3 ?stop"
    have len: "length body = unat ?len"
      using True stop by (simp add: body_def length_subslice)
    have "pack_decode_loop raw ?stop (acc @ [(key, body)]) = Ok obs"
      using unfolded guards key \<open>\<not> ?stop < ?at3\<close> by (simp add: body_def)
    with "1.IH" [OF guards(1) refl refl guards(2) key refl refl refl refl guards(3)]
      "1.prems"(3) True \<open>\<not> ?stop < ?at3\<close>
    obtain new where new: "obs = (acc @ [(key, body)]) @ new" "prefix (records new) (drop ?stop raw)"
      "\<forall>ob \<in> set new. packable ob"
      unfolding body_def by blast
    have fr: "take (12 + ?k) (drop at raw) = frame key ?len" "length key = ?k"
      using frame_of_buffer [OF _ refl key] True by auto
    have "drop at raw = frame key ?len @ drop (12 + ?k) (drop at raw)"
      using append_take_drop_id [of "12 + ?k" "drop at raw"] fr(1) by simp
    moreover have "drop (12 + ?k) (drop at raw) = drop ?at3 raw"
      by (simp add: add.commute add.left_commute)
    moreover have "drop ?at3 raw = body @ drop ?stop raw"
      unfolding body_def using \<open>\<not> ?stop < ?at3\<close> by (intro drop_subslice) simp
    moreover have "word_of_nat (length body) = ?len" using len by simp
    ultimately have "drop at raw = pack_record (key, body) @ drop ?stop raw"
      by (simp only: pack_record_frame append_assoc)
    moreover have "packable (key, body)"
      using from_utf8_SomeD [OF key] fr(2) len True "1.prems"(3) stop
      by (simp add: packable_def)
    ultimately show ?thesis
      using new by (intro exI [of _ "(key, body) # new"]) auto
  qed
qed

lemma pack_decode_loop_overlong:
  assumes key: "rust_str key" "length key < 2 ^ 32" and at: "at = length p"
    and raw: "raw = p @ frame key len @ r" and fits: "length raw < 2 ^ 63"
    and long: "2 ^ 64 \<le> at + (12 + length key) + unat len"
  shows "pack_decode_loop raw at acc = Panic"
proof -
  note fields = frame_fields [OF key at raw]
  let ?at3 = "at + 4 + length key + 8"
  let ?stop = "(?at3 + unat len) mod 2 ^ 64"
  have at3: "?at3 \<le> length raw" using at raw by simp
  moreover have "?at3 + unat len - 2 ^ 64 < ?at3" "2 ^ 64 \<le> ?at3 + unat len"
    using long unat_u64_less [of len] by (simp_all del: unat_u64_less)
  moreover from this at3 fits have "?stop = ?at3 + unat len - 2 ^ 64"
    by (simp add: le_mod_geq mod_less)
  ultimately have guards: "at + 4 \<le> length raw" "\<not> ?at3 > length raw" "\<not> ?stop > length raw"
    "?stop < ?at3"
    by auto
  show ?thesis
    by (subst pack_decode_loop.simps)
      (simp only: Let_def fields guards option.case if_True if_False not_False_eq_True)
qed

lemma pack_decode_magic:
  "pack_decode (pack_magic @ r) = pack_decode_loop (pack_magic @ r) 4 []"
  by (simp add: pack_decode_def)

lemma pack_kept_packable:
  "\<forall>ob \<in> set objects. packable ob \<Longrightarrow> \<forall>ob \<in> set (pack_kept objects max_bytes n). packable ob"
  by (induction objects max_bytes n rule: pack_kept.induct) auto

lemma pack_decode_encode:
  assumes "\<forall>ob \<in> set objects. packable ob"
    and "length (pack_encode objects max_bytes) < 2 ^ 63"
  shows "pack_decode (pack_encode objects max_bytes) = Ok (pack_kept objects max_bytes 4)"
proof -
  let ?kept = "pack_kept objects max_bytes 4"
  have "pack_decode_loop (pack_magic @ records ?kept) 4 []
      = pack_decode_loop (pack_magic @ records ?kept) (4 + length (records ?kept)) ([] @ ?kept)"
    using assms pack_kept_packable by (intro pack_decode_loop_records [where r = "[]"])
      (auto simp: pack_encode_eq)
  then show ?thesis by (simp add: pack_encode_eq pack_decode_magic pack_decode_loop_stop)
qed

section \<open>Properties\<close>

text \<open>C11. What \<open>decode\<close> reads back from \<open>encode\<close>'s buffer is exactly the objects the ceiling
  let through, in order, keys and bodies intact; with room for all of them, it is the whole
  input.\<close>

theorem pack_roundtrip:
  assumes "\<forall>ob \<in> set objects. packable ob"
    and "length (pack_encode objects max_bytes) < 2 ^ 63"
  shows "pack_decode (pack_encode objects max_bytes) = Ok (pack_kept objects max_bytes 4)
    \<and> (4 + length (records objects) \<le> unat max_bytes
        \<longrightarrow> pack_decode (pack_encode objects max_bytes) = Ok objects)"
  using pack_decode_encode [OF assms] by (simp add: pack_kept_all)


text \<open>C28. A container cut off anywhere behind its magic number yields exactly the records that
  were still whole.\<close>

theorem pack_truncation:
  assumes "\<forall>ob \<in> set objects. packable ob"
    and "length (pack_encode objects max_bytes) < 2 ^ 63" and "4 \<le> n"
  shows "pack_decode (take n (pack_encode objects max_bytes))
    = Ok (intact (pack_kept objects max_bytes 4) (n - 4))"
proof -
  let ?kept = "pack_kept objects max_bytes 4"
  have "take n (pack_magic @ records ?kept) = pack_magic @ take (n - 4) (records ?kept)"
    using assms(3) by simp
  moreover have "pack_decode_loop (pack_magic @ take (n - 4) (records ?kept)) 4 []
      = Ok ([] @ intact ?kept (n - 4))"
    using assms pack_kept_packable by (intro pack_decode_loop_truncated [where p = pack_magic])
      (auto simp: pack_encode_eq)
  ultimately show ?thesis by (simp add: pack_encode_eq pack_decode_magic)
qed

text \<open>C27. \<open>decode\<close> invents nothing: whatever buffer it accepts starts with the magic number and
  the very records it returns.\<close>

theorem pack_decode_sound:
  assumes "pack_decode raw = Ok objects" and "length raw < 2 ^ 63"
  shows "prefix (pack_magic @ records objects) raw \<and> (\<forall>ob \<in> set objects. packable ob)"
proof -
  from assms(1) have magic: "4 \<le> length raw" "take 4 raw = pack_magic"
    and loop: "pack_decode_loop raw 4 [] = Ok objects"
    by (auto simp: pack_decode_def split: if_splits)
  from pack_decode_loop_sound [OF loop magic(1) assms(2)]
  have "prefix (records objects) (drop 4 raw)" "\<forall>ob \<in> set objects. packable ob" by auto
  moreover have "raw = pack_magic @ drop 4 raw"
    using append_take_drop_id [of 4 raw] magic(2) by simp
  ultimately show ?thesis by (metis same_prefix_prefix)
qed

text \<open>C30. A body length that overflows the position makes \<open>decode\<close> panic instead of discarding
  the container: the wrapped end lies before the start of the slice.\<close>

theorem pack_decode_overlong_panics:
  assumes "\<forall>ob \<in> set objects. packable ob" and "rust_str key" and "length key < 2 ^ 32"
    and "raw = pack_magic @ records objects @ frame key len @ r" and "length raw < 2 ^ 63"
    and "2 ^ 64 \<le> 4 + length (records objects) + (12 + length key) + unat len"
  shows "pack_decode raw = Panic"
proof -
  have "pack_decode_loop raw 4 [] = pack_decode_loop raw (4 + length (records objects)) ([] @ objects)"
    using assms by (intro pack_decode_loop_records) auto
  also have "\<dots> = Panic"
    using assms by (intro pack_decode_loop_overlong [where p = "pack_magic @ records objects"]) auto
  finally show ?thesis using assms(4) by (simp add: pack_decode_def)
qed

section \<open>Witnesses\<close>

definition sample :: "obj list" where
  "sample = [(''alpha'', as_bytes ''first body''), (''beta'', as_bytes ''second body'')]"

lemma sample_packable: "\<forall>ob \<in> set sample. packable ob"
  by (auto simp: sample_def packable_def intro!: rust_str_ascii)

lemma pack_sample_length: "length (pack_encode sample max_bytes) \<le> 58"
proof -
  have "length (pack_encode sample max_bytes) = 4 + length (records (pack_kept sample max_bytes 4))"
    by (simp add: pack_encode_eq)
  then show ?thesis by (simp add: sample_def)
qed

theorem pack_roundtrip_witness:
  "pack_decode (pack_encode sample (- 1)) = Ok sample"
  using pack_roundtrip [OF sample_packable, of "- 1"] pack_sample_length [of "- 1"]
  by (simp add: sample_def)

theorem pack_truncation_witness:
  "pack_decode (take 55 (pack_encode sample (- 1))) = Ok [(''alpha'', as_bytes ''first body'')]"
  using pack_truncation [OF sample_packable, of "- 1" 55] pack_sample_length [of "- 1"]
  by (simp add: sample_def)

theorem pack_decode_sound_witness:
  "prefix (pack_magic @ records sample) (pack_encode sample (- 1) @ [1, 2])"
proof -
  have "pack_encode sample (- 1) = pack_magic @ records sample"
    by (simp add: pack_encode_eq pack_kept_all sample_def)
  then have raw: "pack_encode sample (- 1) @ [1, 2] = pack_magic @ records sample @ [1, 2]" by simp
  then have "pack_decode (pack_encode sample (- 1) @ [1, 2]) = Ok sample"
    using pack_decode_loop_records [OF sample_packable, of 4 pack_magic _ "[1, 2]" "[]"]
    by (simp add: pack_decode_magic pack_decode_loop_stop sample_def)
  then show ?thesis
    using pack_decode_sound [of "pack_encode sample (- 1) @ [1, 2]" sample] raw
    by (simp add: sample_def)
qed

theorem pack_decode_overlong_panics_witness:
  "pack_decode (pack_magic @ frame ''k'' (- 1)) = Panic"
  using pack_decode_overlong_panics [of "[]" "''k''" "pack_magic @ frame ''k'' (- 1)" "- 1" "[]"]
  by (simp add: rust_str_ascii)

end
