(* ===== verification/Policy.thy ===== *)
theory Policy
  imports Http
begin

text \<open>
  The caching policy (\<open>src/src/policy.rs\<close>): which requests may be looked up, which responses may
  be stored, and under what key. The functions follow the code's checks in their order; URLs and
  header maps are the crates' types (theory \<open>Http\<close>), the digest and its hexadecimal form are
  arguments.
\<close>

section \<open>Tables\<close>

definition ALWAYS_BYPASS :: "str list" where
  "ALWAYS_BYPASS =
     [''actions.githubusercontent.com'',
      ''blob.core.windows.net'',
      ''results-receiver.actions.githubusercontent.com'',
      ''localhost'',
      ''127.0.0.1'',
      ''::1'',
      ''169.254.169.254'']"

definition IMMUTABLE :: "(str \<times> str) list" where
  "IMMUTABLE =
     [(''registry.npmjs.org'', ''/-/''),
      (''registry.yarnpkg.com'', ''/-/''),
      (''files.pythonhosted.org'', ''''),
      (''static.crates.io'', ''''),
      (''crates.io'', ''/download''),
      (''index.crates.io'', ''''),
      (''proxy.golang.org'', ''/@v/''),
      (''objects.githubusercontent.com'', ''''),
      (''github.com'', ''/releases/download/''),
      (''repo1.maven.org'', ''''),
      (''repo.maven.apache.org'', ''''),
      (''registry-1.docker.io'', ''/blobs/''),
      (''production.cloudflare.docker.com'', ''''),
      (''ghcr.io'', ''/blobs/''),
      (''nodejs.org'', ''/dist/''),
      (''static.rust-lang.org'', ''''),
      (''deb.debian.org'', ''.deb''),
      (''archive.ubuntu.com'', ''.deb''),
      (''security.ubuntu.com'', ''.deb''),
      (''azure.archive.ubuntu.com'', ''.deb'')]"

definition SIGNATURE_PARAMS :: "str list" where
  "SIGNATURE_PARAMS =
     [''x-amz-signature'', ''x-goog-signature'', ''signature'', ''sig'', ''token'', ''se'', ''sp'']"

section \<open>Policy and rejection reasons\<close>

record policy =
  min_size :: u64
  max_size :: u64
  min_max_age :: u64
  cache_all :: bool
  cache_authorized :: bool
  extra_bypass :: "str list"
  key_prefix :: str

datatype reject =
  NotGet | BypassHost | Authorized | SignedUrl | Status | NoStore | TooSmall | TooLarge
| NotImmutable

fun reject_as_str :: "reject \<Rightarrow> str" where
  "reject_as_str NotGet = ''not a GET''"
| "reject_as_str BypassHost = ''bypassed host''"
| "reject_as_str Authorized = ''authenticated request''"
| "reject_as_str SignedUrl = ''pre-signed URL''"
| "reject_as_str Status = ''non-200 status''"
| "reject_as_str NoStore = ''no-store/no-cache/private''"
| "reject_as_str TooSmall = ''below min-size''"
| "reject_as_str TooLarge = ''above max-size''"
| "reject_as_str NotImmutable = ''no immutability signal''"

section \<open>Hosts, URLs and freshness\<close>

text \<open>The byte before the pattern is read only where the host is longer, so the index is in range.\<close>

definition host_matches :: "str \<Rightarrow> str \<Rightarrow> bool" where
  "host_matches host pattern =
     (if host = pattern then True
      else length host > length pattern
        \<and> ends_with host pattern
        \<and> host ! (length host - length pattern - 1) = CHR ''.'')"

definition is_bypassed :: "policy \<Rightarrow> str \<Rightarrow> bool" where
  "is_bypassed P host0 =
     (let host = trim_end_char (CHR '']'') (trim_start_char (CHR ''['') host0) in
      list_ex (\<lambda>pattern. host_matches host pattern) (ALWAYS_BYPASS @ extra_bypass P))"

definition is_signed_url :: "'u url_ops \<Rightarrow> 'u \<Rightarrow> bool" where
  "is_signed_url U url =
     list_ex (\<lambda>(k, _). List.member SIGNATURE_PARAMS (to_ascii_lowercase k)) (url_query_pairs U url)"

definition unwrap_or_default :: "str option \<Rightarrow> str" where
  "unwrap_or_default s = (case s of None \<Rightarrow> [] | Some t \<Rightarrow> t)"

definition is_immutable_artifact :: "'u url_ops \<Rightarrow> 'u \<Rightarrow> bool" where
  "is_immutable_artifact U url =
     (let host = unwrap_or_default (url_host_str U url); path = url_path U url in
      list_ex (\<lambda>(pattern_host, pattern_path).
          host_matches host pattern_host \<and> (pattern_path = [] \<or> contains path pattern_path))
        IMMUTABLE)"

fun find_map :: "('a \<Rightarrow> 'b option) \<Rightarrow> 'a list \<Rightarrow> 'b option" where
  "find_map f [] = None"
| "find_map f (x # xs) = (case f x of None \<Rightarrow> find_map f xs | Some y \<Rightarrow> Some y)"

definition max_age :: "str \<Rightarrow> u64 option" where
  "max_age cache_control =
     Option.bind
       (find_map (strip_prefix ''max-age='') (map trim (split_on (CHR '','') cache_control)))
       parse_u64"

section \<open>Decisions\<close>

definition request_eligible ::
  "policy \<Rightarrow> 'u url_ops \<Rightarrow> 'h header_ops \<Rightarrow> str \<Rightarrow> 'u \<Rightarrow> 'h \<Rightarrow> reject + unit" where
  "request_eligible P U H method url headers =
     (if method \<noteq> ''GET'' then Inl NotGet
      else if is_bypassed P (unwrap_or_default (url_host_str U url)) then Inl BypassHost
      else if \<not> cache_authorized P
        \<and> (hm_contains_key H ''authorization'' headers \<or> hm_contains_key H ''cookie'' headers)
      then Inl Authorized
      else if is_signed_url U url then Inl SignedUrl
      else Inr ())"

definition cache_control_of :: "'h header_ops \<Rightarrow> 'h \<Rightarrow> str" where
  "cache_control_of H headers =
     to_ascii_lowercase
       (unwrap_or_default (Option.bind (hm_get H ''cache-control'' headers) (hv_to_str H)))"

definition response_storable ::
  "policy \<Rightarrow> 'u url_ops \<Rightarrow> 'h header_ops \<Rightarrow> 'u \<Rightarrow> u16 \<Rightarrow> 'h \<Rightarrow> u64 \<Rightarrow> reject + unit" where
  "response_storable P U H url status headers len =
     (if status \<noteq> 200 then Inl Status
      else
        let cache_control = cache_control_of H headers in
        if contains cache_control ''no-store'' \<or> contains cache_control ''no-cache''
          \<or> contains cache_control ''private''
        then Inl NoStore
        else if len < min_size P then Inl TooSmall
        else if len > max_size P then Inl TooLarge
        else if cache_all P
          \<or> contains cache_control ''immutable''
          \<or> (case max_age cache_control of None \<Rightarrow> False | Some age \<Rightarrow> age \<ge> min_max_age P)
          \<or> is_immutable_artifact U url
        then Inr ()
        else Inl NotImmutable)"

section \<open>Keys\<close>

definition normalize_url :: "'u url_ops \<Rightarrow> 'u \<Rightarrow> str" where
  "normalize_url U url0 =
     (let url = url_set_fragment U None url0;
          default_port =
            (url_scheme U url = ''https'' \<and> url_port U url = Some 443
             \<or> url_scheme U url = ''http'' \<and> url_port U url = Some 80) in
      url_as_str U (if default_port then url_set_port U None url else url))"

definition policy_key :: "policy \<Rightarrow> 'u url_ops \<Rightarrow> (bytes \<Rightarrow> bytes) \<Rightarrow> (bytes \<Rightarrow> str) \<Rightarrow> 'u \<Rightarrow> str" where
  "policy_key P U sha256 hex_encode url =
     key_prefix P @ ''-''
     @ hex_encode (sha256 (as_bytes (''GET'' @ [NL]) @ as_bytes (normalize_url U url)))"

section \<open>The order of the checks\<close>

text \<open>
  Reasons are ordered by the position of their check, so that "the first failing check" is the
  minimum of the reasons that apply.
\<close>

fun reject_rank :: "reject \<Rightarrow> nat" where
  "reject_rank NotGet = 0"
| "reject_rank BypassHost = 1"
| "reject_rank Authorized = 2"
| "reject_rank SignedUrl = 3"
| "reject_rank Status = 4"
| "reject_rank NoStore = 5"
| "reject_rank TooSmall = 6"
| "reject_rank TooLarge = 7"
| "reject_rank NotImmutable = 8"

lemma reject_rank_inject: "reject_rank a = reject_rank b \<longleftrightarrow> a = b"
  by (cases a; cases b) simp_all

instantiation reject :: linorder
begin

definition less_eq_reject :: "reject \<Rightarrow> reject \<Rightarrow> bool" where
  "less_eq_reject a b \<longleftrightarrow> reject_rank a \<le> reject_rank b"

definition less_reject :: "reject \<Rightarrow> reject \<Rightarrow> bool" where
  "less_reject a b \<longleftrightarrow> reject_rank a < reject_rank b"

instance
  by standard (auto simp: less_eq_reject_def less_reject_def reject_rank_inject)

end

definition first_reason :: "reject set \<Rightarrow> reject + unit" where
  "first_reason R = (if R = {} then Inr () else Inl (Min R))"

lemma finite_reject [simp]: "finite (R :: reject set)"
proof -
  have "finite (range (\<lambda>r :: reject. r))"
  proof (rule finite_subset)
    show "range (\<lambda>r :: reject. r)
        \<subseteq> set [NotGet, BypassHost, Authorized, SignedUrl, Status, NoStore, TooSmall, TooLarge, NotImmutable]"
    proof
      fix r :: reject
      show "r \<in> set [NotGet, BypassHost, Authorized, SignedUrl, Status, NoStore, TooSmall, TooLarge, NotImmutable]"
        by (cases r) simp_all
    qed
  qed simp
  then show ?thesis by (rule finite_subset [rotated]) simp
qed

text \<open>What the documentation's table lists against a request, and against a response.\<close>

definition request_reasons ::
  "policy \<Rightarrow> 'u url_ops \<Rightarrow> 'h header_ops \<Rightarrow> str \<Rightarrow> 'u \<Rightarrow> 'h \<Rightarrow> reject set" where
  "request_reasons P U H method url headers =
     {r. r = NotGet \<and> method \<noteq> ''GET''
       \<or> r = BypassHost \<and> is_bypassed P (unwrap_or_default (url_host_str U url))
       \<or> r = Authorized \<and> \<not> cache_authorized P
          \<and> (hm_values H headers ''authorization'' \<noteq> [] \<or> hm_values H headers ''cookie'' \<noteq> [])
       \<or> r = SignedUrl \<and> (\<exists>(k, v) \<in> set (url_query_pairs U url). to_ascii_lowercase k \<in> set SIGNATURE_PARAMS)}"

definition forbids_storing :: "str \<Rightarrow> bool" where
  "forbids_storing cc \<longleftrightarrow> sublist ''no-store'' cc \<or> sublist ''no-cache'' cc \<or> sublist ''private'' cc"

definition fresh_enough :: "policy \<Rightarrow> 'u url_ops \<Rightarrow> 'u \<Rightarrow> str \<Rightarrow> bool" where
  "fresh_enough P U url cc \<longleftrightarrow>
     cache_all P \<or> sublist ''immutable'' cc
     \<or> (\<exists>age. max_age cc = Some age \<and> min_max_age P \<le> age) \<or> is_immutable_artifact U url"

definition response_reasons ::
  "policy \<Rightarrow> 'u url_ops \<Rightarrow> 'h header_ops \<Rightarrow> 'u \<Rightarrow> u16 \<Rightarrow> 'h \<Rightarrow> u64 \<Rightarrow> reject set" where
  "response_reasons P U H url status headers len =
     {r. r = Status \<and> status \<noteq> 200
       \<or> r = NoStore \<and> forbids_storing (cache_control_of H headers)
       \<or> r = TooSmall \<and> len < min_size P
       \<or> r = TooLarge \<and> max_size P < len
       \<or> r = NotImmutable \<and> \<not> fresh_enough P U url (cache_control_of H headers)}"

lemma first_reason_eqI:
  "r \<in> R \<Longrightarrow> (\<And>q. q \<in> R \<Longrightarrow> reject_rank r \<le> reject_rank q) \<Longrightarrow> first_reason R = Inl r"
  unfolding first_reason_def by (auto intro!: Min_eqI simp: less_eq_reject_def)

lemma first_reason_step:
  assumes "\<And>r. Q r \<Longrightarrow> reject_rank A < reject_rank r"
  shows "first_reason {r. r = A \<and> a \<or> Q r} = (if a then Inl A else first_reason {r. Q r})"
proof (cases a)
  case True
  then have "first_reason {r. r = A \<and> a \<or> Q r} = Inl A"
    using assms by (intro first_reason_eqI) (auto intro: less_imp_le)
  with True show ?thesis by simp
qed simp

lemma first_reason_last: "first_reason {r. r = A \<and> a} = (if a then Inl A else Inr ())"
  by (simp add: first_reason_def)

lemma first_reason_request:
  "first_reason {r. r = NotGet \<and> a \<or> r = BypassHost \<and> b \<or> r = Authorized \<and> c \<or> r = SignedUrl \<and> d}
    = (if a then Inl NotGet else if b then Inl BypassHost else if c then Inl Authorized
       else if d then Inl SignedUrl else Inr ())"
  by (subst first_reason_step, force)+ (simp add: first_reason_last)

lemma first_reason_response:
  "first_reason {r. r = Status \<and> a \<or> r = NoStore \<and> b \<or> r = TooSmall \<and> c \<or> r = TooLarge \<and> d
      \<or> r = NotImmutable \<and> e}
    = (if a then Inl Status else if b then Inl NoStore else if c then Inl TooSmall
       else if d then Inl TooLarge else if e then Inl NotImmutable else Inr ())"
  by (subst first_reason_step, force)+ (simp add: first_reason_last)

lemma is_signed_url_iff:
  "is_signed_url U url \<longleftrightarrow>
     (\<exists>(k, v) \<in> set (url_query_pairs U url). to_ascii_lowercase k \<in> set SIGNATURE_PARAMS)"
  by (simp add: is_signed_url_def list_ex_iff case_prod_unfold)

section \<open>Properties\<close>

text \<open>C13. A request is turned away for the first check it fails, in the code's order, and let
  through exactly when no row of the table speaks against it.\<close>

theorem request_eligible_first_reason:
  assumes "header_laws H"
  shows "request_eligible P U H method url headers
    = first_reason (request_reasons P U H method url headers)"
  unfolding request_eligible_def request_reasons_def first_reason_request
  by (simp only: is_signed_url_iff hm_contains_values [OF assms])

text \<open>C14. A response is refused for the first row of the table it violates, in the code's order,
  and storable exactly when it violates none.\<close>

theorem response_storable_first_reason:
  "response_storable P U H url status headers len
    = first_reason (response_reasons P U H url status headers len)"
  unfolding response_storable_def response_reasons_def first_reason_response Let_def
  by (simp add: forbids_storing_def fresh_enough_def contains_sublist split: option.split)

text \<open>C31. A host matches a pattern exactly when it is the pattern or a subdomain of it; the
  code's byte arithmetic never accepts a mere suffix.\<close>

theorem host_matches_subdomain:
  "host_matches host pattern \<longleftrightarrow> host = pattern \<or> (\<exists>sub. host = sub @ ''.'' @ pattern)"
proof (cases "host = pattern")
  case False
  have "host_matches host pattern \<longleftrightarrow> (\<exists>sub. host = sub @ CHR ''.'' # pattern)" (is "?m \<longleftrightarrow> ?s")
  proof
    assume ?m
    with False obtain pre where "host = pre @ pattern" "pre \<noteq> []" "last pre = CHR ''.''"
      by (auto simp: host_matches_def ends_with_suffix suffix_def nth_append last_conv_nth)
    then show ?s by (metis append_butlast_last_id append.assoc append_Cons append_Nil)
  next
    assume ?s
    then show ?m by (auto simp: host_matches_def ends_with_suffix suffix_def nth_append)
  qed
  with False show ?thesis by simp
qed (simp add: host_matches_def)

lemma is_bypassed_iff:
  "is_bypassed P host \<longleftrightarrow>
     (\<exists>pattern \<in> set (ALWAYS_BYPASS @ extra_bypass P).
        host_matches (trim_end_char (CHR '']'') (trim_start_char (CHR ''['') host)) pattern)"
  by (simp add: is_bypassed_def Let_def list_ex_iff)

text \<open>Whatever the configuration, a request to the cache service, its blob storage, loopback
  or the metadata address, or to a subdomain of one, is never eligible; nor is one to a host the
  user added.\<close>

theorem bypassed_never_eligible:
  assumes "pattern \<in> set (ALWAYS_BYPASS @ extra_bypass P)"
    and "url_host_str U url = Some host" and "host = pattern \<or> host = sub @ ''.'' @ pattern"
    and "CHR ''['' \<notin> set host" and "CHR '']'' \<notin> set host"
  shows "request_eligible P U H method url headers \<noteq> Inr ()"
proof -
  have "host_matches host pattern" using assms(3) by (auto simp: host_matches_subdomain)
  with assms(1) have "is_bypassed P host"
    unfolding is_bypassed_iff trim_chars_id [OF assms(4,5)] by blast
  with assms(2) show ?thesis by (simp add: request_eligible_def unwrap_or_default_def)
qed

text \<open>A response is stored only with status 200, within the size bounds, and when neither
  \<open>no-store\<close>, \<open>no-cache\<close> nor \<open>private\<close> occurs in the (first) cache-control value.\<close>

theorem storable_only_if:
  assumes "response_storable P U H url status headers len = Inr ()"
  shows "status = 200 \<and> min_size P \<le> len \<and> len \<le> max_size P
    \<and> \<not> forbids_storing (cache_control_of H headers)
    \<and> fresh_enough P U url (cache_control_of H headers)"
  using assms
  by (auto simp: response_storable_def Let_def forbids_storing_def fresh_enough_def contains_sublist
      not_less split: if_splits option.splits)

lemma find_map_append:
  "find_map f (xs @ ys) = (case find_map f xs of None \<Rightarrow> find_map f ys | Some y \<Rightarrow> Some y)"
  by (induction xs) (auto split: option.splits)

lemma find_map_None: "find_map f xs = None \<longleftrightarrow> (\<forall>x \<in> set xs. f x = None)"
  by (induction xs) (auto split: option.splits)

lemma max_age_token: "trim (replicate k (CHR '' '') @ ''max-age='' @ dec n) = ''max-age='' @ dec n"
  unfolding trim_blanks
  by (rule trim_id) (simp_all add: solid_dec [OF last_in_set], simp add: solid_def ws1_def)

text \<open>The age the policy compares is the number of the first \<open>max-age\<close> directive, wherever
  it stands in the list and however it is indented.\<close>

theorem max_age_of_directives:
  assumes "\<forall>d \<in> set before. CHR '','' \<notin> set d \<and> \<not> starts_with (trim d) ''max-age=''"
    and "\<forall>d \<in> set after. CHR '','' \<notin> set d" and "n < 2 ^ 64"
  shows "max_age (join '','' (before @ (replicate k (CHR '' '') @ ''max-age='' @ dec n) # after))
    = Some (word_of_nat n)"
proof -
  let ?d = "replicate k (CHR '' '') @ ''max-age='' @ dec n"
  have "CHR '','' \<notin> set (dec n)" using dec_code [of "CHR '',''" n] by auto
  then have "split_on (CHR '','') (join '','' (before @ ?d # after)) = before @ ?d # after"
    using assms by (intro split_on_join) auto
  moreover have "find_map (strip_prefix ''max-age='') (map trim before) = None"
    using assms(1) by (auto simp: find_map_None strip_prefix_def)
  moreover have "strip_prefix ''max-age='' (''max-age='' @ dec n) = Some (dec n)"
    by (rule strip_prefix_append)
  ultimately show ?thesis
    using max_age_token [of k n] parse_u64_dec [OF assms(3)]
    by (simp add: max_age_def find_map_append)
qed

text \<open>C33. Only the first \<open>Cache-Control\<close> value of a response is looked at: two header maps whose
  first values agree are treated alike, whatever a further value forbids.\<close>

theorem only_first_cache_control:
  assumes "header_laws H"
    and "hm_values H h ''cache-control'' = v # vs" and "hm_values H h' ''cache-control'' = v # vs'"
  shows "response_storable P U H url status h len = response_storable P U H url status h' len"
proof -
  have "cache_control_of H h = cache_control_of H h'"
    using assms by (simp add: cache_control_of_def hm_laws)
  then show ?thesis by (simp add: response_storable_def)
qed

text \<open>The \<open>url\<close> crate's documented behaviour the key relies on.\<close>

definition url_key_laws :: "'u url_ops \<Rightarrow> bool" where
  "url_key_laws U \<longleftrightarrow>
     (\<forall>f u. url_set_fragment U None (url_set_fragment U f u) = url_set_fragment U None u)
     \<and> (\<forall>u. url_set_fragment U None (url_set_port U None u)
           = url_set_port U None (url_set_fragment U None u))
     \<and> (\<forall>u. url_port U (url_set_port U None u) = None)
     \<and> (\<forall>f u. url_scheme U (url_set_fragment U f u) = url_scheme U u)
     \<and> (\<forall>f u. url_port U (url_set_fragment U f u) = url_port U u)"

definition default_port :: "'u url_ops \<Rightarrow> 'u \<Rightarrow> bool" where
  "default_port U url \<longleftrightarrow>
     url_scheme U url = ''https'' \<and> url_port U url = Some 443
     \<or> url_scheme U url = ''http'' \<and> url_port U url = Some 80"

text \<open>The key of a URL does not depend on its fragment, nor on writing out the scheme's
  default port.\<close>

theorem key_ignores_fragment_and_default_port:
  assumes "url_key_laws U"
  shows "policy_key P U sha hex (url_set_fragment U f url) = policy_key P U sha hex url
    \<and> (default_port U url
        \<longrightarrow> policy_key P U sha hex (url_set_port U None url) = policy_key P U sha hex url)"
proof -
  from assms have laws:
    "\<And>f u. url_set_fragment U None (url_set_fragment U f u) = url_set_fragment U None u"
    "\<And>u. url_set_fragment U None (url_set_port U None u)
         = url_set_port U None (url_set_fragment U None u)"
    "\<And>u. url_port U (url_set_port U None u) = None"
    "\<And>f u. url_scheme U (url_set_fragment U f u) = url_scheme U u"
    "\<And>f u. url_port U (url_set_fragment U f u) = url_port U u"
    by (auto simp: url_key_laws_def)
  have "normalize_url U (url_set_fragment U f url) = normalize_url U url"
    by (simp add: normalize_url_def laws(1))
  moreover have "normalize_url U (url_set_port U None url) = normalize_url U url" if "default_port U url"
    using that unfolding normalize_url_def Let_def laws(2) default_port_def
    by (simp add: laws(3,4,5))
  ultimately show ?thesis by (simp add: policy_key_def)
qed

definition key_message :: "'u url_ops \<Rightarrow> 'u \<Rightarrow> bytes" where
  "key_message U url = as_bytes (''GET'' @ [NL]) @ as_bytes (normalize_url U url)"


section \<open>Witnesses\<close>

definition test_policy :: policy where
  "test_policy =
     \<lparr>min_size = 1024, max_size = push_bit 20 1, min_max_age = 3600, cache_all = False,
      cache_authorized = False, extra_bypass = [''internal.example''], key_prefix = ''t''\<rparr>"

definition npm_url :: part_url where
  "npm_url = https_url ''registry.npmjs.org'' ''/a/-/a-1.tgz''"

definition pypi_url :: part_url where
  "pypi_url = https_url ''pypi.org'' ''/simple/requests/''"

lemma part_url_key_laws: "url_key_laws (part_urls table)"
  by (simp add: url_key_laws_def part_urls_def)

theorem request_eligible_first_reason_witness:
  "request_eligible test_policy (part_urls []) alist_headers ''GET'' npm_url
     [(''authorization'', as_bytes ''Bearer x'')] = Inl Authorized
   \<and> first_reason (request_reasons test_policy (part_urls []) alist_headers ''GET'' npm_url
        [(''authorization'', as_bytes ''Bearer x'')]) = Inl Authorized"
  unfolding request_eligible_first_reason [OF alist_header_laws, symmetric] conj_absorb
  by (simp add: request_eligible_def test_policy_def npm_url_def https_url_def part_urls_def
      alist_headers_def is_bypassed_def unwrap_or_default_def host_matches_def ends_with_def
      ALWAYS_BYPASS_def trim_start_char_def trim_end_char_def)

theorem bypassed_never_eligible_witness:
  "request_eligible test_policy (part_urls []) alist_headers ''GET''
     (https_url ''build.internal.example'' ''/x'') [] \<noteq> Inr ()"
  by (rule bypassed_never_eligible
      [where pattern = "''internal.example''" and sub = "''build''" and host = "''build.internal.example''"])
    (simp_all add: test_policy_def part_urls_def https_url_def)

lemma storable_sample:
  "response_storable test_policy (part_urls []) alist_headers npm_url 200 [] 4096 = Inr ()"
  by (simp add: response_storable_def test_policy_def npm_url_def https_url_def part_urls_def
      alist_headers_def cache_control_of_def unwrap_or_default_def to_ascii_lowercase_def max_age_def
      is_immutable_artifact_def IMMUTABLE_def host_matches_def starts_with_def strip_prefix_def Let_def)

theorem storable_only_if_witness:
  "(200 :: u16) = 200 \<and> min_size test_policy \<le> 4096 \<and> 4096 \<le> max_size test_policy
   \<and> \<not> forbids_storing (cache_control_of alist_headers [])
   \<and> fresh_enough test_policy (part_urls []) npm_url (cache_control_of alist_headers [])"
  by (rule storable_only_if [OF storable_sample])

theorem max_age_of_directives_witness:
  "max_age ''public, max-age=31536000'' = Some 31536000"
proof -
  have "dec 31536000 = ''31536000''"
    by (simp add: dec.simps digit_chars)
  then show ?thesis
    using max_age_of_directives [of "[''public'']" "[]" 31536000 1]
    by (simp add: trim_id solid_def ws1_def starts_with_def)
qed

theorem only_first_cache_control_witness:
  "response_storable test_policy (part_urls []) alist_headers pypi_url 200
     [(''cache-control'', as_bytes ''max-age=31536000''), (''cache-control'', as_bytes ''no-store'')] 4096
   = Inr ()"
proof -
  let ?h = "[(''cache-control'', as_bytes ''max-age=31536000'')]"
  let ?h2 = "[(''cache-control'', as_bytes ''max-age=31536000''), (''cache-control'', as_bytes ''no-store'')]"
  have vals: "hm_values alist_headers ?h ''cache-control'' = [as_bytes ''max-age=31536000'']"
    "hm_values alist_headers ?h2 ''cache-control'' = [as_bytes ''max-age=31536000'', as_bytes ''no-store'']"
    by (simp_all add: hm_values_def alist_headers_def)
  have "ascii_text (as_bytes ''max-age=31536000'') = Some ''max-age=31536000''"
    unfolding ascii_text_def of_bytes_as_bytes by (simp add: as_bytes_def)
  then have cc: "cache_control_of alist_headers ?h = ''max-age=31536000''"
    by (simp add: cache_control_of_def alist_headers_def unwrap_or_default_def
        to_ascii_lowercase_def lower_char_def)
  have "dec 31536000 = ''31536000''"
    by (simp add: dec.simps digit_chars)
  then have age: "max_age ''max-age=31536000'' = Some 31536000"
    using parse_u64_dec [of 31536000] max_age_token [of 0 31536000]
    by (simp add: max_age_def split_on_fresh strip_prefix_def starts_with_def)
  have "response_storable test_policy (part_urls []) alist_headers pypi_url 200 ?h 4096 = Inr ()"
    unfolding response_storable_def cc Let_def age
    by (simp add: test_policy_def starts_with_def)
  then show ?thesis
    unfolding only_first_cache_control [OF alist_header_laws vals] .
qed

theorem key_ignores_fragment_and_default_port_witness:
  "policy_key test_policy (part_urls []) id of_bytes
     (https_url ''example.com'' ''/a''\<lparr>pu_port := Some 443, pu_fragment := Some ''frag''\<rparr>)
   = policy_key test_policy (part_urls []) id of_bytes (https_url ''example.com'' ''/a'')"
proof -
  let ?u = "https_url ''example.com'' ''/a''"
  let ?p = "?u\<lparr>pu_port := Some 443\<rparr>"
  note ignores = key_ignores_fragment_and_default_port [OF part_url_key_laws, of test_policy "[]" id of_bytes]
  have "default_port (part_urls []) ?p" by (simp add: default_port_def part_urls_def https_url_def)
  with ignores [of None ?p]
  have "policy_key test_policy (part_urls []) id of_bytes ?u
      = policy_key test_policy (part_urls []) id of_bytes ?p"
    by (simp add: part_urls_def https_url_def)
  moreover have "policy_key test_policy (part_urls []) id of_bytes (url_set_fragment (part_urls []) (Some ''frag'') ?p)
      = policy_key test_policy (part_urls []) id of_bytes ?p"
    using ignores [of "Some ''frag''" ?p] by simp
  ultimately show ?thesis by (simp add: part_urls_def)
qed


end
