(* ===== verification/Entry.thy ===== *)
theory Entry
  imports Http
begin

text \<open>
  The wire format of one cached response (\<open>src/src/entry.rs\<close>): magic number, length-prefixed
  JSON header, body. The JSON codec, the digest and its hexadecimal form are third-party code and
  arguments of the definitions; the integer codec is the interface \<open>le_codec\<close> of the prelude.
\<close>

section \<open>Definitions\<close>

definition entry_magic :: bytes where
  "entry_magic = as_bytes ''CICH''"

definition HOP_BY_HOP :: "str list" where
  "HOP_BY_HOP =
     [''connection'', ''keep-alive'', ''proxy-authenticate'', ''proxy-authorization'',
      ''proxy-connection'', ''te'', ''trailer'', ''transfer-encoding'', ''upgrade'']"

record cache_header =
  hdr_url :: str
  hdr_status :: u16
  hdr_headers :: "(str \<times> str) list"
  hdr_sha256 :: str
  hdr_stored_at :: u64

record entry =
  ent_header :: cache_header
  ent_body :: bytes

text \<open>\<open>stored_at\<close> is the clock's reading, zero where it precedes the epoch.\<close>

definition entry_new ::
  "'h header_ops \<Rightarrow> (bytes \<Rightarrow> bytes) \<Rightarrow> (bytes \<Rightarrow> str) \<Rightarrow> u64 \<Rightarrow> str \<Rightarrow> u16 \<Rightarrow> 'h \<Rightarrow> bytes \<Rightarrow> entry" where
  "entry_new H sha256 hex_encode now url status headers body =
     (let kept = filter (\<lambda>(name, _). \<not> List.member HOP_BY_HOP name) (hm_iter H headers);
          texts = List.map_filter
            (\<lambda>(name, value). map_option (\<lambda>v. (name, v)) (hv_to_str H value)) kept in
      \<lparr>ent_header =
         \<lparr>hdr_url = url, hdr_status = status, hdr_headers = texts,
          hdr_sha256 = hex_encode (sha256 body), hdr_stored_at = now\<rparr>,
       ent_body = body\<rparr>)"

definition entry_encode :: "(cache_header \<Rightarrow> bytes res) \<Rightarrow> entry \<Rightarrow> bytes res" where
  "entry_encode to_vec e =
     (case to_vec (ent_header e) of
        Ok header \<Rightarrow>
          Ok (entry_magic @ u32_to_le (word_of_nat (length header)) @ header @ ent_body e)
      | Err err \<Rightarrow> Err err
      | Panic \<Rightarrow> Panic)"

definition entry_decode ::
  "(bytes \<Rightarrow> cache_header res) \<Rightarrow> (bytes \<Rightarrow> bytes) \<Rightarrow> (bytes \<Rightarrow> str) \<Rightarrow> bytes \<Rightarrow> entry res" where
  "entry_decode from_slice sha256 hex_encode raw =
     (if length raw < 8 \<or> take 4 raw \<noteq> entry_magic then Err ''not a cache entry''
      else
        let header_len = unat (u32_from_le (subslice raw 4 8)); body_start = 8 + header_len in
        if length raw < body_start then Err ''truncated cache entry''
        else case from_slice (subslice raw 8 body_start) of
          Ok header \<Rightarrow>
            let body = drop body_start raw in
            if hex_encode (sha256 body) \<noteq> hdr_sha256 header
            then Err ''cache entry failed integrity check''
            else Ok \<lparr>ent_header = header, ent_body = body\<rparr>
        | Err err \<Rightarrow> Err err
        | Panic \<Rightarrow> Panic)"

definition entry_header_map :: "'h header_ops \<Rightarrow> entry \<Rightarrow> 'h" where
  "entry_header_map H e =
     foldl (\<lambda>map (name, value).
         case (hn_parse H name, hv_from_str H value) of
           (Some n, Some v) \<Rightarrow> hm_append H n v map
         | _ \<Rightarrow> map)
       (hm_new H) (hdr_headers (ent_header e))"

text \<open>The JSON codec's documented behaviour: it reads back what it wrote.\<close>

definition json_law :: "(cache_header \<Rightarrow> bytes res) \<Rightarrow> (bytes \<Rightarrow> cache_header res) \<Rightarrow> bool" where
  "json_law to_vec from_slice \<longleftrightarrow> (\<forall>h b. to_vec h = Ok b \<longrightarrow> from_slice b = Ok h)"

section \<open>Framing\<close>

definition entry_frame :: "bytes \<Rightarrow> bytes \<Rightarrow> bytes" where
  "entry_frame header body = entry_magic @ u32_to_le (word_of_nat (length header)) @ header @ body"

lemma length_entry_magic [simp]: "length entry_magic = 4"
  by (simp add: entry_magic_def)

lemma entry_encode_Ok: "to_vec (ent_header e) = Ok h \<Longrightarrow> entry_encode to_vec e = Ok (entry_frame h (ent_body e))"
  by (simp add: entry_encode_def entry_frame_def)

lemma entry_encode_OkD:
  "entry_encode to_vec e = Ok raw \<Longrightarrow> \<exists>h. to_vec (ent_header e) = Ok h \<and> raw = entry_frame h (ent_body e)"
  by (auto simp: entry_encode_def entry_frame_def split: res.splits)

lemma entry_frame_fields:
  assumes "length h < 2 ^ 32"
  shows "take 4 (entry_frame h body) = entry_magic"
    and "unat (u32_from_le (subslice (entry_frame h body) 4 8)) = length h"
    and "subslice (entry_frame h body) 8 (8 + length h) = h"
    and "drop (8 + length h) (entry_frame h body) = body"
    and "length (entry_frame h body) = 8 + length h + length body"
proof -
  show "unat (u32_from_le (subslice (entry_frame h body) 4 8)) = length h"
    using le32.field_at [of 4 entry_magic 8 "word_of_nat (length h)" "h @ body"] assms
    by (simp add: entry_frame_def)
  show "subslice (entry_frame h body) 8 (8 + length h) = h"
    using subslice_middle [of 8 "entry_magic @ u32_to_le (word_of_nat (length h))" _ h body]
    by (simp add: entry_frame_def)
qed (simp_all add: entry_frame_def)

text \<open>What \<open>decode\<close> does with a frame: everything hangs on the header and the digest.\<close>

lemma entry_decode_frame:
  assumes "length h < 2 ^ 32"
  shows "entry_decode from_slice sha hex (entry_frame h body) =
    (case from_slice h of
       Ok header \<Rightarrow>
         if hex (sha body) \<noteq> hdr_sha256 header then Err ''cache entry failed integrity check''
         else Ok \<lparr>ent_header = header, ent_body = body\<rparr>
     | Err err \<Rightarrow> Err err | Panic \<Rightarrow> Panic)"
  unfolding entry_decode_def Let_def entry_frame_fields [OF assms]
  by (simp split: res.split)

section \<open>Replayed headers\<close>

lemma values_fold_header_map:
  assumes "header_laws H"
  shows "hm_values H (foldl (\<lambda>map (name, value).
         case (hn_parse H name, hv_from_str H value) of
           (Some n, Some v) \<Rightarrow> hm_append H n v map
         | _ \<Rightarrow> map) m ps) k
    = hm_values H m k @ List.map_filter (\<lambda>(name, value).
         case (hn_parse H name, hv_from_str H value) of
           (Some n, Some v) \<Rightarrow> if n = k then Some v else None | _ \<Rightarrow> None) ps"
  by (induction ps arbitrary: m)
    (auto simp: map_filter_simps hm_values_append [OF assms] split: option.splits)

text \<open>The headers a cached response is replayed with are those it was stored with: for every
  name the readable values in their order, and none for hop-by-hop names.\<close>

lemma entry_headers_replayed:
  assumes "header_laws H" and "header_text_laws H"
  shows "hm_values H (entry_header_map H (entry_new H sha hex now url status headers body)) n
    = (if n \<in> set HOP_BY_HOP then []
       else filter (\<lambda>v. hv_to_str H v \<noteq> None) (hm_values H headers n))"
proof -
  let ?f = "\<lambda>(name, value). case (hn_parse H name, hv_from_str H value) of
           (Some m, Some v) \<Rightarrow> if m = n then Some v else None | _ \<Rightarrow> None"
  let ?g = "\<lambda>(name, value). map_option (\<lambda>v. (name, v)) (hv_to_str H value)"
  have "List.map_filter ?f (List.map_filter ?g (filter (\<lambda>(name, _). \<not> List.member HOP_BY_HOP name) ps))
      = (if n \<in> set HOP_BY_HOP then []
         else filter (\<lambda>v. hv_to_str H v \<noteq> None) (map snd (filter (\<lambda>p. fst p = n) ps)))"
    if "\<forall>p \<in> set ps. hn_parse H (fst p) = Some (fst p)" for ps
    using that assms(2)
    by (induction ps) (auto simp: map_filter_simps header_text_laws_def split: option.splits)
  moreover have "\<forall>p \<in> set (hm_iter H headers). hn_parse H (fst p) = Some (fst p)"
    using assms(2) by (force simp: header_text_laws_def)
  ultimately have replayed: "List.map_filter ?f (List.map_filter ?g
      (filter (\<lambda>(name, _). \<not> List.member HOP_BY_HOP name) (hm_iter H headers)))
      = (if n \<in> set HOP_BY_HOP then []
         else filter (\<lambda>v. hv_to_str H v \<noteq> None) (hm_values H headers n))"
    by (simp only: hm_values_def)
  show ?thesis
    unfolding entry_header_map_def entry_new_def Let_def values_fold_header_map [OF assms(1)]
      hm_values_new [OF assms(1)] entry.simps cache_header.simps replayed append_Nil ..
qed

section \<open>Properties\<close>

text \<open>C12. An entry that was encoded decodes to itself: status, URL, headers and body, provided the
  JSON codec reads back what it wrote and the header stays below 4 GiB.\<close>

theorem entry_roundtrip:
  assumes "json_law to_vec from_slice"
    and "e = entry_new H sha hex now url status headers body"
    and "to_vec (ent_header e) = Ok h" and "length h < 2 ^ 32"
  shows "\<exists>raw. entry_encode to_vec e = Ok raw \<and> entry_decode from_slice sha hex raw = Ok e"
proof -
  have "hdr_sha256 (ent_header e) = hex (sha (ent_body e))"
    using assms(2) by (simp add: entry_new_def Let_def)
  then show ?thesis
    using assms(1,3) entry_encode_Ok [of to_vec e h, OF assms(3)]
      entry_decode_frame [OF assms(4), of from_slice sha hex "ent_body e"]
    by (auto simp: json_law_def)
qed

text \<open>What \<open>decode\<close> accepts is a well-formed frame whose body has the digest recorded in its
  header: nothing that fails the integrity check is ever returned.\<close>

theorem entry_decode_sound:
  assumes "entry_decode from_slice sha hex raw = Ok e"
  shows "\<exists>h. raw = entry_frame h (ent_body e) \<and> from_slice h = Ok (ent_header e)
    \<and> hex (sha (ent_body e)) = hdr_sha256 (ent_header e)"
proof -
  let ?n = "unat (u32_from_le (subslice raw 4 8))"
  let ?h = "subslice raw 8 (8 + ?n)"
  from assms have raw: "8 \<le> length raw" "take 4 raw = entry_magic" "8 + ?n \<le> length raw"
    and ok: "from_slice ?h = Ok (ent_header e)" "ent_body e = drop (8 + ?n) raw"
      "hex (sha (ent_body e)) = hdr_sha256 (ent_header e)"
    by (auto simp: entry_decode_def Let_def split: if_splits res.splits)
  have "length ?h = ?n" using raw by (simp add: length_subslice)
  then have "u32_to_le (word_of_nat (length ?h)) = subslice raw 4 8"
    using raw by (simp add: le32.to_from_le length_subslice)
  moreover have "drop 4 raw = subslice raw 4 8 @ ?h @ drop (8 + ?n) raw"
    using drop_subslice [of 4 8 raw] drop_subslice [of 8 "8 + ?n" raw] by simp
  ultimately have "raw = entry_frame ?h (ent_body e)"
    using append_take_drop_id [of 4 raw] raw(2) ok(2) by (simp add: entry_frame_def)
  with ok show ?thesis by blast
qed

text \<open>A stored entry whose body was altered or cut short is refused with the integrity error,
  unless the altered body has the same digest.\<close>

theorem entry_tampered_body:
  assumes "json_law to_vec from_slice"
    and "e = entry_new H sha hex now url status headers body"
    and "to_vec (ent_header e) = Ok h" and "length h < 2 ^ 32"
    and "hex (sha body') \<noteq> hex (sha body)"
  shows "entry_encode to_vec e = Ok (entry_frame h body)
    \<and> entry_decode from_slice sha hex (entry_frame h body') = Err ''cache entry failed integrity check''"
proof -
  have "hdr_sha256 (ent_header e) = hex (sha body)" "ent_body e = body"
    using assms(2) by (simp_all add: entry_new_def Let_def)
  with assms(5) show ?thesis
    using assms(1,3) entry_encode_Ok [of to_vec e h, OF assms(3)] entry_decode_frame [OF assms(4)]
    by (simp add: json_law_def)
qed

text \<open>An entry cut off inside its frame, before the body starts, is refused by one of the two
  length checks; nothing is read past the end.\<close>

theorem entry_truncated_frame:
  assumes "length h < 2 ^ 32" and "n < 8 + length h"
  shows "entry_decode from_slice sha hex (take n (entry_frame h body))
    = (if n < 8 then Err ''not a cache entry'' else Err ''truncated cache entry'')"
proof (cases "n < 8")
  case True
  then show ?thesis
    unfolding entry_decode_def by (simp add: entry_frame_fields(5) [OF assms(1)])
next
  case False
  then have "take 4 (take n (entry_frame h body)) = entry_magic"
    "subslice (take n (entry_frame h body)) 4 8 = subslice (entry_frame h body) 4 8"
    "length (take n (entry_frame h body)) = n"
    using entry_frame_fields(1,5) [OF assms(1), of body] assms(2)
    by (simp_all add: subslice_take min_def)
  with False show ?thesis
    unfolding entry_decode_def Let_def using entry_frame_fields(2) [OF assms(1), of body] assms(2)
    by simp
qed

section \<open>Witnesses\<close>

text \<open>A codec for one header, and a digest that is the body itself.\<close>

definition demo_entry :: entry where
  "demo_entry = entry_new alist_headers id of_bytes 7 ''u'' 200
     [(''etag'', as_bytes ''x''), (''te'', as_bytes ''y'')] [1, 2]"

definition demo_to_vec :: "cache_header \<Rightarrow> bytes res" where
  "demo_to_vec h = (if h = ent_header demo_entry then Ok [9, 9, 9] else Err ''unknown'')"

definition demo_from_slice :: "bytes \<Rightarrow> cache_header res" where
  "demo_from_slice b = (if b = [9, 9, 9] then Ok (ent_header demo_entry) else Err ''not JSON'')"

lemma demo_codec: "json_law demo_to_vec demo_from_slice"
  by (auto simp: json_law_def demo_to_vec_def demo_from_slice_def split: if_splits)

lemma demo_header: "demo_to_vec (ent_header demo_entry) = Ok [9, 9, 9]"
  by (simp add: demo_to_vec_def)

theorem entry_roundtrip_witness:
  "\<exists>raw. entry_encode demo_to_vec demo_entry = Ok raw
     \<and> entry_decode demo_from_slice id of_bytes raw = Ok demo_entry"
  by (rule entry_roundtrip [OF demo_codec demo_entry_def demo_header]) simp

lemma demo_decode: "entry_decode demo_from_slice id of_bytes (entry_frame [9, 9, 9] [1, 2]) = Ok demo_entry"
  by (simp add: entry_decode_frame demo_from_slice_def demo_entry_def entry_new_def Let_def)

theorem entry_decode_sound_witness:
  "\<exists>h. entry_frame [9, 9, 9] [1, 2] = entry_frame h (ent_body demo_entry)
     \<and> demo_from_slice h = Ok (ent_header demo_entry)
     \<and> of_bytes (id (ent_body demo_entry)) = hdr_sha256 (ent_header demo_entry)"
  by (rule entry_decode_sound [OF demo_decode])

theorem entry_tampered_body_witness:
  "entry_decode demo_from_slice id of_bytes (entry_frame [9, 9, 9] [1])
     = Err ''cache entry failed integrity check''"
  using entry_tampered_body [OF demo_codec demo_entry_def demo_header, of "[1]"]
  by (simp add: of_bytes_def)

theorem entry_truncated_frame_witness:
  "entry_decode demo_from_slice id of_bytes (take 10 (entry_frame [9, 9, 9] [1, 2]))
     = Err ''truncated cache entry''"
  using entry_truncated_frame [of "[9, 9, 9]" 10 demo_from_slice id of_bytes "[1, 2]"] by simp

end
