(* ===== verification/Fmt.thy ===== *)
theory Fmt
  imports Rust_Str
begin

text \<open>
  The formatting the program asks of the standard library: padding to a width, \<open>u64 as f64\<close>,
  the double-precision operations of the summary, and \<open>{:.1}\<close>. A non-negative finite double is
  a pair of a mantissa and a binary exponent; every operation rounds to 53 bits, half to even,
  as IEEE 754 does (the values here are far from overflow and underflow). \<open>{:.1}\<close> prints the
  exact binary value rounded to tenths, half to even.
\<close>

section \<open>Padding\<close>

text \<open>Widths count characters, that is bytes that do not continue a sequence.\<close>

definition char_count :: "str \<Rightarrow> nat" where
  "char_count s = length (filter (\<lambda>b. \<not> (128 \<le> (of_char b :: nat) \<and> of_char b < (192 :: nat))) s)"

definition pad_right :: "nat \<Rightarrow> str \<Rightarrow> str" where
  "pad_right w s = s @ replicate (w - char_count s) (CHR '' '')"

definition pad_left :: "nat \<Rightarrow> str \<Rightarrow> str" where
  "pad_left w s = replicate (w - char_count s) (CHR '' '') @ s"

section \<open>Rounding\<close>

definition div_round_even :: "nat \<Rightarrow> nat \<Rightarrow> nat" where
  "div_round_even a b =
     (let q = a div b; r = a mod b in
      if b < 2 * r \<or> 2 * r = b \<and> odd q then q + 1 else q)"

fun bit_len :: "nat \<Rightarrow> nat" where
  "bit_len n = (if n = 0 then 0 else Suc (bit_len (n div 2)))"

declare bit_len.simps [simp del]

lemma div_round_even_error:
  assumes "0 < b"
  shows "2 * (a - div_round_even a b * b) \<le> b" and "2 * (div_round_even a b * b - a) \<le> b"
proof -
  define q r where "q = a div b" and "r = a mod b"
  have a: "a = q * b + r" and r: "r < b" using assms by (simp_all add: q_def r_def)
  have "div_round_even a b * b = (if b < 2 * r \<or> 2 * r = b \<and> odd q then q * b + b else q * b)"
    by (simp add: div_round_even_def Let_def q_def r_def)
  then show "2 * (a - div_round_even a b * b) \<le> b" "2 * (div_round_even a b * b - a) \<le> b"
    unfolding a using r by (auto split: if_splits)
qed

lemma div_round_even_exact: "0 < b \<Longrightarrow> div_round_even (q * b) b = q"
  by (simp add: div_round_even_def)

lemma div_round_even_bounds:
  "a div b \<le> div_round_even a b" "div_round_even a b \<le> Suc (a div b)"
  by (simp_all add: div_round_even_def Let_def)

section \<open>Doubles\<close>

type_synonym f64 = "nat \<times> int" \<comment> \<open>mantissa and exponent\<close>

definition f64_round :: "nat \<Rightarrow> int \<Rightarrow> f64" where
  "f64_round m e =
     (let d = bit_len m - 53 in (div_round_even m (2 ^ d), e + int d))"

definition f64_of_u64 :: "u64 \<Rightarrow> f64" where
  "f64_of_u64 n = f64_round (unat n) 0"

definition f64_mult :: "f64 \<Rightarrow> f64 \<Rightarrow> f64" where
  "f64_mult x y = f64_round (fst x * fst y) (snd x + snd y)"

text \<open>The quotient is scaled so that it has at least 53 bits before it is rounded once.\<close>

definition f64_div :: "f64 \<Rightarrow> f64 \<Rightarrow> f64" where
  "f64_div x y =
     (let s = 54 + bit_len (fst y);
          a = fst x * 2 ^ s;
          d = bit_len (a div fst y) - 53 in
      (div_round_even a (fst y * 2 ^ d), snd x - snd y - int s + int d))"

text \<open>The tenths \<open>{:.1}\<close> prints.\<close>

definition f64_tenths :: "f64 \<Rightarrow> nat" where
  "f64_tenths x =
     (if 0 \<le> snd x then 10 * fst x * 2 ^ nat (snd x)
      else div_round_even (10 * fst x) (2 ^ nat (- snd x)))"

definition print_tenths :: "nat \<Rightarrow> str" where
  "print_tenths t = dec (t div 10) @ ''.'' @ dec (t mod 10)"

definition fmt_1 :: "f64 \<Rightarrow> str" where
  "fmt_1 x = print_tenths (f64_tenths x)"

lemma bit_len_bound: "n < 2 ^ bit_len n"
proof (induction n rule: bit_len.induct)
  case (1 n)
  show ?case
  proof (cases "n = 0")
    case False
    with 1 have "n div 2 < 2 ^ bit_len (n div 2)" by simp
    then show ?thesis using False by (subst bit_len.simps) auto
  qed simp
qed

lemma bit_len_le: "n < 2 ^ k \<Longrightarrow> bit_len n \<le> k"
proof (induction n arbitrary: k rule: bit_len.induct)
  case (1 n)
  show ?case
  proof (cases "n = 0")
    case True
    then show ?thesis by (simp add: bit_len.simps)
  next
    case False
    then obtain j where k: "k = Suc j" using "1.prems" by (cases k) auto
    then have "n div 2 < 2 ^ j" using "1.prems" by auto
    with "1.IH" [OF False this] False k show ?thesis by (subst bit_len.simps) auto
  qed
qed

text \<open>Integers below \<open>2 ^ 53\<close> are represented exactly.\<close>

lemma f64_of_u64_exact: "unat n < 2 ^ 53 \<Longrightarrow> f64_of_u64 n = (unat n, 0)"
  using bit_len_le [of "unat n" 53] div_round_even_exact [of 1 "unat n"]
  by (simp add: f64_of_u64_def f64_round_def)

end
