(* ===== verification/Stats.thy ===== *)
theory Stats
  imports Fmt
begin

text \<open>
  Counters, request log and run summary (\<open>src/src/stats.rs\<close>). The counters are 64-bit atomics:
  words whose addition wraps, as \<open>fetch_add\<close> does. One call of \<open>record\<close> is several atomic steps;
  \<open>fetch_add\<close> names them, so that interleavings of concurrent calls can be stated.
\<close>

section \<open>State\<close>

record stats =
  st_requests :: u64
  st_hits :: u64
  st_misses :: u64
  st_stored :: u64
  st_passthrough :: u64
  st_errors :: u64
  st_bytes_from_cache :: u64
  st_bytes_from_network :: u64
  st_bytes_uploaded :: u64
  st_entries_stored :: u64
  st_packed :: u64
  st_packed_bytes :: u64
  st_uploads_failed :: u64
  st_upstream_millis :: u64
  st_log :: "str option" \<comment> \<open>contents of the open log file\<close>

definition stats_default :: stats where
  "stats_default =
     \<lparr>st_requests = 0, st_hits = 0, st_misses = 0, st_stored = 0, st_passthrough = 0,
      st_errors = 0, st_bytes_from_cache = 0, st_bytes_from_network = 0, st_bytes_uploaded = 0,
      st_entries_stored = 0, st_packed = 0, st_packed_bytes = 0, st_uploads_failed = 0,
      st_upstream_millis = 0, st_log = None\<rparr>"

datatype outcome = Hit | Stored | Miss str | Pass str | Error str

text \<open>The counters that are added to, and one \<open>fetch_add\<close>.\<close>

datatype counter =
  Requests | Hits | Misses | StoredCount | Passthrough | Errors | BytesFromCache
| BytesFromNetwork | BytesUploaded | EntriesStored | UploadsFailed | UpstreamMillis

fun fetch_add :: "counter \<Rightarrow> u64 \<Rightarrow> stats \<Rightarrow> stats" where
  "fetch_add Requests n s = s\<lparr>st_requests := st_requests s + n\<rparr>"
| "fetch_add Hits n s = s\<lparr>st_hits := st_hits s + n\<rparr>"
| "fetch_add Misses n s = s\<lparr>st_misses := st_misses s + n\<rparr>"
| "fetch_add StoredCount n s = s\<lparr>st_stored := st_stored s + n\<rparr>"
| "fetch_add Passthrough n s = s\<lparr>st_passthrough := st_passthrough s + n\<rparr>"
| "fetch_add Errors n s = s\<lparr>st_errors := st_errors s + n\<rparr>"
| "fetch_add BytesFromCache n s = s\<lparr>st_bytes_from_cache := st_bytes_from_cache s + n\<rparr>"
| "fetch_add BytesFromNetwork n s = s\<lparr>st_bytes_from_network := st_bytes_from_network s + n\<rparr>"
| "fetch_add BytesUploaded n s = s\<lparr>st_bytes_uploaded := st_bytes_uploaded s + n\<rparr>"
| "fetch_add EntriesStored n s = s\<lparr>st_entries_stored := st_entries_stored s + n\<rparr>"
| "fetch_add UploadsFailed n s = s\<lparr>st_uploads_failed := st_uploads_failed s + n\<rparr>"
| "fetch_add UpstreamMillis n s = s\<lparr>st_upstream_millis := st_upstream_millis s + n\<rparr>"

section \<open>Sizes\<close>

text \<open>
  \<open>value\<close> after \<open>unit\<close> divisions by 1024.0 is the double \<open>(m, e - 10 * unit)\<close>: dividing by a
  power of two is exact. The comparison with 1024.0 is the one of the values.
\<close>

definition f64_ge_1024 :: "f64 \<Rightarrow> bool" where
  "f64_ge_1024 x =
     (if 0 \<le> snd x then 1024 \<le> fst x * 2 ^ nat (snd x) else 1024 * 2 ^ nat (- snd x) \<le> fst x)"

definition UNITS :: "str list" where
  "UNITS = [''B'', ''KiB'', ''MiB'', ''GiB'']"

function human_bytes_loop :: "f64 \<Rightarrow> nat \<Rightarrow> f64 \<times> nat" where
  "human_bytes_loop v u =
     (if f64_ge_1024 v \<and> u < length UNITS - 1
      then human_bytes_loop (fst v, snd v - 10) (u + 1) else (v, u))"
  by pat_completeness auto
termination
  by (relation "measure (\<lambda>(v, u). length UNITS - 1 - u)") auto

declare human_bytes_loop.simps [simp del]

definition human_bytes :: "u64 \<Rightarrow> str" where
  "human_bytes bytes =
     (let (v, u) = human_bytes_loop (f64_of_u64 bytes) 0 in
      if u = 0 then dec (unat bytes) @ '' B'' else fmt_1 v @ '' '' @ UNITS ! u)"

section \<open>Recording\<close>

definition open_log :: "str res \<Rightarrow> stats \<Rightarrow> stats res" where
  "open_log opened s =
     (case opened of Ok contents \<Rightarrow> Ok (s\<lparr>st_log := Some contents\<rparr>) | Err e \<Rightarrow> Err e | Panic \<Rightarrow> Panic)"

definition stats_record :: "outcome \<Rightarrow> str \<Rightarrow> str \<Rightarrow> u64 \<Rightarrow> u64 \<Rightarrow> stats \<Rightarrow> stats" where
  "stats_record outcome method url bytes millis s0 =
     (let s1 = fetch_add Requests 1 s0;
          (s, label) =
            (case outcome of
               Hit \<Rightarrow>
                 (fetch_add BytesFromCache bytes (fetch_add Hits 1 s1), ''HIT  '')
             | Stored \<Rightarrow>
                 (fetch_add UpstreamMillis millis (fetch_add BytesFromNetwork bytes
                    (fetch_add StoredCount 1 (fetch_add Misses 1 s1))), ''MISS '')
             | Miss reason \<Rightarrow>
                 (fetch_add UpstreamMillis millis (fetch_add BytesFromNetwork bytes
                    (fetch_add Misses 1 s1)), ''MISS ('' @ reason @ '')'')
             | Pass reason \<Rightarrow>
                 (fetch_add BytesFromNetwork bytes (fetch_add Passthrough 1 s1),
                  ''PASS ('' @ reason @ '')'')
             | Error reason \<Rightarrow> (fetch_add Errors 1 s1, ''ERROR ('' @ reason @ '')''));
          stored = (if outcome = Stored then ''  -> stored'' else []);
          line = pad_right 32 label @ '' '' @ pad_left 10 (human_bytes bytes) @ '' ''
            @ pad_left 8 (dec (unat millis) @ ''ms'') @ ''  '' @ method @ '' '' @ url @ stored @ [NL] in
      case st_log s of None \<Rightarrow> s | Some log \<Rightarrow> s\<lparr>st_log := Some (log @ line)\<rparr>)"

definition record_upload :: "u64 \<Rightarrow> bool \<Rightarrow> stats \<Rightarrow> stats" where
  "record_upload bytes ok s =
     (if ok then fetch_add BytesUploaded bytes (fetch_add EntriesStored 1 s)
      else fetch_add UploadsFailed 1 s)"

definition record_packed :: "u64 \<Rightarrow> u64 \<Rightarrow> stats \<Rightarrow> stats" where
  "record_packed objects bytes s = s\<lparr>st_packed := objects, st_packed_bytes := bytes\<rparr>"

section \<open>Summary\<close>

record summary =
  sum_requests :: u64
  sum_hits :: u64
  sum_misses :: u64
  sum_stored :: u64
  sum_passthrough :: u64
  sum_errors :: u64
  sum_bytes_from_cache :: u64
  sum_bytes_from_network :: u64
  sum_bytes_uploaded :: u64
  sum_entries_stored :: u64
  sum_packed :: u64
  sum_packed_bytes :: u64
  sum_uploads_failed :: u64
  sum_upstream_millis :: u64

definition stats_summary :: "stats \<Rightarrow> summary" where
  "stats_summary s =
     \<lparr>sum_requests = st_requests s, sum_hits = st_hits s, sum_misses = st_misses s,
      sum_stored = st_stored s, sum_passthrough = st_passthrough s, sum_errors = st_errors s,
      sum_bytes_from_cache = st_bytes_from_cache s,
      sum_bytes_from_network = st_bytes_from_network s,
      sum_bytes_uploaded = st_bytes_uploaded s, sum_entries_stored = st_entries_stored s,
      sum_packed = st_packed s, sum_packed_bytes = st_packed_bytes s,
      sum_uploads_failed = st_uploads_failed s, sum_upstream_millis = st_upstream_millis s\<rparr>"

definition show_u64 :: "u64 \<Rightarrow> str" where
  "show_u64 n = dec (unat n)"

definition hit_rate :: "summary \<Rightarrow> f64" where
  "hit_rate t =
     (let cacheable = sum_hits t + sum_misses t in
      if cacheable = 0 then (0, 0)
      else f64_div (f64_mult (100, 0) (f64_of_u64 (sum_hits t))) (f64_of_u64 cacheable))"

definition render :: "summary \<Rightarrow> str" where
  "render t =
     ''cicache summary'' @ [NL]
     @ ''  requests           '' @ show_u64 (sum_requests t) @ [NL]
     @ ''  cache hits         '' @ show_u64 (sum_hits t)
       @ '' ('' @ fmt_1 (hit_rate t) @ ''% of cacheable)'' @ [NL]
     @ ''  cache misses       '' @ show_u64 (sum_misses t)
       @ '' ('' @ show_u64 (sum_stored t) @ '' stored for later runs)'' @ [NL]
     @ ''  passed through     '' @ show_u64 (sum_passthrough t) @ [NL]
     @ ''  errors             '' @ show_u64 (sum_errors t) @ [NL]
     @ ''  served from cache  '' @ human_bytes (sum_bytes_from_cache t) @ [NL]
     @ ''  fetched upstream   '' @ human_bytes (sum_bytes_from_network t)
       @ ''  in '' @ fmt_1 (f64_div (f64_of_u64 (sum_upstream_millis t)) (1000, 0)) @ ''s'' @ [NL]
     @ ''  uploaded to cache  '' @ human_bytes (sum_bytes_uploaded t)
       @ '' across '' @ show_u64 (sum_entries_stored t)
       @ '' entries ('' @ show_u64 (sum_uploads_failed t) @ '' failed)'' @ [NL]
     @ ''  packed together    '' @ human_bytes (sum_packed_bytes t)
       @ '' across '' @ show_u64 (sum_packed t) @ '' objects'' @ [NL]"

section \<open>Recording concurrently\<close>

lemma fetch_add_commute: "fetch_add c m (fetch_add d n s) = fetch_add d n (fetch_add c m s)"
  by (cases c; cases d) simp_all

interpretation atomic: commuting_steps "\<lambda>(c, n). fetch_add c n"
  by unfold_locales (auto simp: fetch_add_commute)

text \<open>The atomic steps of one call of \<open>record\<close>, and the calls of a run one after the other.\<close>

fun record_steps :: "outcome \<Rightarrow> u64 \<Rightarrow> u64 \<Rightarrow> (counter \<times> u64) list" where
  "record_steps Hit bytes millis = [(Requests, 1), (Hits, 1), (BytesFromCache, bytes)]"
| "record_steps Stored bytes millis =
     [(Requests, 1), (Misses, 1), (StoredCount, 1), (BytesFromNetwork, bytes), (UpstreamMillis, millis)]"
| "record_steps (Miss r) bytes millis =
     [(Requests, 1), (Misses, 1), (BytesFromNetwork, bytes), (UpstreamMillis, millis)]"
| "record_steps (Pass r) bytes millis = [(Requests, 1), (Passthrough, 1), (BytesFromNetwork, bytes)]"
| "record_steps (Error r) bytes millis = [(Requests, 1), (Errors, 1)]"

type_synonym call = "outcome \<times> str \<times> str \<times> u64 \<times> u64"

definition call_steps :: "call \<Rightarrow> (counter \<times> u64) list" where
  "call_steps c = (case c of (outcome, method, url, bytes, millis) \<Rightarrow> record_steps outcome bytes millis)"

definition run_call :: "call \<Rightarrow> stats \<Rightarrow> stats" where
  "run_call c = (case c of (outcome, method, url, bytes, millis) \<Rightarrow>
     stats_record outcome method url bytes millis)"

definition counters_of :: "stats \<Rightarrow> stats" where
  "counters_of s = s\<lparr>st_log := None\<rparr>"

lemma fetch_add_log: "fetch_add c n (s\<lparr>st_log := l\<rparr>) = (fetch_add c n s)\<lparr>st_log := l\<rparr>"
  by (cases c) simp_all

lemma counters_of_log [simp]: "counters_of (s\<lparr>st_log := l\<rparr>) = counters_of s"
  by (simp add: counters_of_def)

lemma counters_of_fetch_add [simp]: "counters_of (fetch_add c n s) = fetch_add c n (counters_of s)"
  by (simp add: counters_of_def fetch_add_log)

lemma counters_of_run_call:
  "counters_of (run_call c s) = fold (\<lambda>(c, n). fetch_add c n) (call_steps c) (counters_of s)"
  by (auto simp: counters_of_def run_call_def call_steps_def stats_record_def Let_def
      split: prod.split outcome.split option.split)

lemma counters_of_run_calls:
  "counters_of (fold run_call calls s)
    = fold (\<lambda>c. fold (\<lambda>(c, n). fetch_add c n) (call_steps c)) calls (counters_of s)"
  by (induction calls arbitrary: s) (auto simp: counters_of_run_call)

text \<open>How often an outcome of each kind occurs.\<close>

definition tally :: "(outcome \<Rightarrow> bool) \<Rightarrow> call list \<Rightarrow> u64" where
  "tally p calls = word_of_nat (length (filter (\<lambda>c. p (fst c)) calls))"

lemma tally_Nil [simp]: "tally p [] = 0"
  by (simp add: tally_def)

lemma tally_Cons [simp]: "tally p (c # calls) = (if p (fst c) then 1 else 0) + tally p calls"
  by (simp add: tally_def)

lemma run_call_counts:
  "st_requests (run_call c s) = st_requests s + 1
   \<and> st_hits (run_call c s) = st_hits s + (if fst c = Hit then 1 else 0)
   \<and> st_stored (run_call c s) = st_stored s + (if fst c = Stored then 1 else 0)
   \<and> st_misses (run_call c s) = st_misses s + (if fst c = Stored \<or> (\<exists>r. fst c = Miss r) then 1 else 0)
   \<and> st_passthrough (run_call c s) = st_passthrough s + (if \<exists>r. fst c = Pass r then 1 else 0)
   \<and> st_errors (run_call c s) = st_errors s + (if \<exists>r. fst c = Error r then 1 else 0)"
  by (cases c) (auto simp: run_call_def stats_record_def Let_def split: outcome.split option.split)

lemma run_calls_counts:
  "st_requests (fold run_call calls s) = st_requests s + tally (\<lambda>_. True) calls
   \<and> st_hits (fold run_call calls s) = st_hits s + tally (\<lambda>x. x = Hit) calls
   \<and> st_stored (fold run_call calls s) = st_stored s + tally (\<lambda>x. x = Stored) calls
   \<and> st_misses (fold run_call calls s)
       = st_misses s + tally (\<lambda>x. x = Stored \<or> (\<exists>r. x = Miss r)) calls
   \<and> st_passthrough (fold run_call calls s) = st_passthrough s + tally (\<lambda>x. \<exists>r. x = Pass r) calls
   \<and> st_errors (fold run_call calls s) = st_errors s + tally (\<lambda>x. \<exists>r. x = Error r) calls"
proof (induction calls arbitrary: s)
  case (Cons c calls)
  then show ?case
    by (simp only: fold_simps comp_apply run_call_counts tally_Cons add.assoc if_True simp_thms)
qed simp

lemma tally_partition:
  "tally (\<lambda>_. True) calls
    = tally (\<lambda>x. x = Hit) calls + tally (\<lambda>x. x = Stored \<or> (\<exists>r. x = Miss r)) calls
      + tally (\<lambda>x. \<exists>r. x = Pass r) calls + tally (\<lambda>x. \<exists>r. x = Error r) calls"
proof (induction calls)
  case (Cons c calls)
  then show ?case by (cases "fst c") (simp_all add: algebra_simps)
qed simp

section \<open>Readable sizes\<close>

text \<open>The unit a size is shown in.\<close>

definition size_unit :: "nat \<Rightarrow> nat" where
  "size_unit n = (if n < 1024 then 0 else if n < 1024 ^ 2 then 1 else if n < 1024 ^ 3 then 2 else 3)"

lemma human_bytes_loop_eq:
  "human_bytes_loop (n, 0) 0 = ((n, - 10 * int (size_unit n)), size_unit n)"
  by (simp add: human_bytes_loop.simps f64_ge_1024_def UNITS_def size_unit_def)

lemma size_unit_bounds:
  "size_unit n \<le> 3" "0 < size_unit n \<longleftrightarrow> 1024 \<le> n" "1024 \<le> n \<Longrightarrow> 1024 ^ size_unit n \<le> n"
  "size_unit n < 3 \<Longrightarrow> n < 1024 ^ Suc (size_unit n)"
  by (auto simp: size_unit_def)

lemma f64_tenths_unit:
  "0 < k \<Longrightarrow> f64_tenths (n, - 10 * int k) = div_round_even (10 * n) (1024 ^ k)"
  by (simp add: f64_tenths_def nat_mult_distrib power_mult)

section \<open>Properties\<close>

text \<open>C35. A size below \<open>2 ^ 53\<close> bytes is shown in the largest unit it fills, with the tenths
  nearest to its true value (an error of at most half a tenth); below 1024 it is exact.\<close>

theorem human_bytes_accurate:
  assumes "unat bytes < 2 ^ 53"
  shows "if unat bytes < 1024 then human_bytes bytes = dec (unat bytes) @ '' B''
    else \<exists>k t. 0 < k \<and> k \<le> 3 \<and> 1024 ^ k \<le> unat bytes \<and> (k < 3 \<longrightarrow> unat bytes < 1024 ^ Suc k)
      \<and> human_bytes bytes = print_tenths t @ '' '' @ UNITS ! k
      \<and> 2 * (10 * unat bytes - t * 1024 ^ k) \<le> 1024 ^ k
      \<and> 2 * (t * 1024 ^ k - 10 * unat bytes) \<le> 1024 ^ k"
proof (cases "unat bytes < 1024")
  case True
  then show ?thesis
    using size_unit_bounds(2) [of "unat bytes"]
    by (simp add: human_bytes_def f64_of_u64_exact [OF assms] human_bytes_loop_eq)
next
  case False
  let ?n = "unat bytes"
  let ?k = "size_unit ?n"
  let ?t = "div_round_even (10 * ?n) (1024 ^ ?k)"
  have k: "0 < ?k" using False size_unit_bounds(2) [of ?n] by simp
  then have "human_bytes bytes = print_tenths ?t @ '' '' @ UNITS ! ?k"
    by (simp add: human_bytes_def f64_of_u64_exact [OF assms] human_bytes_loop_eq fmt_1_def
        f64_tenths_unit del: mult_minus_left)
  moreover have "2 * (10 * ?n - ?t * 1024 ^ ?k) \<le> 1024 ^ ?k" "2 * (?t * 1024 ^ ?k - 10 * ?n) \<le> 1024 ^ ?k"
    by (rule div_round_even_error, simp)+
  ultimately show ?thesis
    using False k size_unit_bounds(1,3,4) [of ?n] by (auto simp del: power_Suc)
qed

text \<open>C34. Requests recorded by concurrent tasks lose nothing: however the atomic increments of any
  number of \<open>record\<close> calls interleave, the counters end as if the calls had run one by one.\<close>

theorem record_interleavings:
  assumes "mset steps = mset (concat (map call_steps calls))"
  shows "fold (\<lambda>(c, n). fetch_add c n) steps (counters_of s) = counters_of (fold run_call calls s)"
  unfolding counters_of_run_calls by (rule atomic.fold_interleaved [OF assms])

text \<open>The summary adds up: after any run its request count is the number of recorded calls and
  the sum of hits, misses, passed-through requests and errors, and each of these is the number of
  outcomes of its kind (modulo the counters' width).\<close>

theorem summary_adds_up:
  "let t = stats_summary (fold run_call calls stats_default) in
   sum_requests t = word_of_nat (length calls)
   \<and> sum_requests t = sum_hits t + sum_misses t + sum_passthrough t + sum_errors t
   \<and> sum_hits t = tally (\<lambda>x. x = Hit) calls
   \<and> sum_stored t = tally (\<lambda>x. x = Stored) calls
   \<and> sum_misses t = tally (\<lambda>x. x = Stored \<or> (\<exists>r. x = Miss r)) calls
   \<and> sum_passthrough t = tally (\<lambda>x. \<exists>r. x = Pass r) calls
   \<and> sum_errors t = tally (\<lambda>x. \<exists>r. x = Error r) calls"
  using run_calls_counts [of calls stats_default] tally_partition [of calls]
  by (simp add: stats_summary_def stats_default_def Let_def) (simp add: tally_def)

theorem record_interleavings_witness:
  "fold (\<lambda>(c, n). fetch_add c n)
     [(Requests, 1), (Requests, 1), (Errors, 1), (Hits, 1), (BytesFromCache, 9)]
     (counters_of stats_default)
   = counters_of (fold run_call
       [(Hit, ''GET'', ''u'', 9, 0), (Error ''e'', ''GET'', ''v'', 0, 0)] stats_default)"
  by (rule record_interleavings) (simp add: call_steps_def)

theorem human_bytes_accurate_witness: "human_bytes 318976 = ''311.5 KiB''"
proof -
  have "\<exists>k t. 0 < k \<and> k \<le> 3 \<and> 1024 ^ k \<le> (318976 :: nat) \<and> (k < 3 \<longrightarrow> (318976 :: nat) < 1024 ^ Suc k)
      \<and> human_bytes 318976 = print_tenths t @ '' '' @ UNITS ! k
      \<and> 2 * (10 * 318976 - t * 1024 ^ k) \<le> 1024 ^ k \<and> 2 * (t * 1024 ^ k - 10 * 318976) \<le> 1024 ^ k"
    using human_bytes_accurate [of 318976] by simp
  then obtain k t where kt: "0 < k" "k \<le> 3" "1024 ^ k \<le> (318976 :: nat)"
    "human_bytes 318976 = print_tenths t @ '' '' @ UNITS ! k"
    "2 * (10 * 318976 - t * 1024 ^ k) \<le> 1024 ^ k" "2 * (t * 1024 ^ k - 10 * 318976) \<le> 1024 ^ k"
    by blast
  from kt(1-3) have k: "k = 1" by (cases "k = 1"; cases "k = 2"; cases "k = 3") auto
  with kt(5,6) have "t = 3115" by simp
  then show ?thesis
    using kt(4) k by (simp add: print_tenths_def UNITS_def dec.simps digit_chars)
qed

end
