(* ===== verification/Gha.thy ===== *)
theory Gha
  imports Rust_Str
begin

text \<open>
  The client of the Actions cache service (\<open>src/src/gha.rs\<close>). The service, the HTTP client and the
  JSON decoders are outside the repository: they are the record \<open>net\<close>, whose effects thread a
  world of type \<open>'w\<close>. A call that fails without an answer is \<open>None\<close>; the client turns it into the
  message its code attaches. Results of the client are \<open>str + 'a\<close>, the left side the error.
\<close>

section \<open>Wire types and the outside\<close>

datatype rpc_request =
  CreateRequest str str \<comment> \<open>key, version\<close>
| FinalizeUploadRequest str str str \<comment> \<open>key, version, size\<close>
| DownloadRequest str str "str list" \<comment> \<open>key, version, restore keys\<close>

record create_response =
  cr_ok :: bool
  cr_signed_upload_url :: str

record finalize_response =
  fr_ok :: bool

record download_response =
  dr_ok :: bool
  dr_signed_download_url :: str

record 'w net =
  net_post :: "str \<Rightarrow> str \<Rightarrow> rpc_request \<Rightarrow> 'w \<Rightarrow> (u16 \<times> str) option \<times> 'w"
    \<comment> \<open>URL, bearer token, JSON body; the answer's status and text\<close>
  net_get :: "str \<Rightarrow> 'w \<Rightarrow> (u16 \<times> bytes option) option \<times> 'w"
  net_put :: "str \<Rightarrow> str \<Rightarrow> bytes \<Rightarrow> 'w \<Rightarrow> u16 option \<times> 'w"
    \<comment> \<open>URL, content length, body\<close>
  net_parse_create :: "str \<Rightarrow> create_response option"
  net_parse_finalize :: "str \<Rightarrow> finalize_response option"
  net_parse_download :: "str \<Rightarrow> download_response option"
  net_show_status :: "u16 \<Rightarrow> str"
  net_now :: "'w \<Rightarrow> nat" \<comment> \<open>seconds since the epoch\<close>
  net_env :: "str \<Rightarrow> str option"

section \<open>The client\<close>

definition SERVICE :: str where
  "SERVICE = ''twirp/github.actions.results.api.v1.CacheService''"

definition ENTRY_FORMAT_VERSION :: str where
  "ENTRY_FORMAT_VERSION = ''cicache/entry-v1''"

record gha =
  gha_base :: str
  gha_token :: str
  gha_version :: str
  gha_exhausted :: bool

definition sha_hex :: "(bytes \<Rightarrow> bytes) \<Rightarrow> (bytes \<Rightarrow> str) \<Rightarrow> bytes \<Rightarrow> str" where
  "sha_hex sha256 hex_encode b = hex_encode (sha256 b)"

text \<open>\<open>built\<close> says whether the HTTP client could be built.\<close>

definition gha_from_env ::
  "(str \<Rightarrow> str option) \<Rightarrow> bool \<Rightarrow> (bytes \<Rightarrow> bytes) \<Rightarrow> (bytes \<Rightarrow> str) \<Rightarrow> gha option" where
  "gha_from_env env built sha256 hex_encode =
     (case env ''ACTIONS_RESULTS_URL'' of
        None \<Rightarrow> None
      | Some base \<Rightarrow>
          (case env ''ACTIONS_RUNTIME_TOKEN'' of
             None \<Rightarrow> None
           | Some token \<Rightarrow>
               if base = [] \<or> token = [] then None
               else if \<not> built then None
               else Some
                 \<lparr>gha_base = (if ends_with base ''/'' then base else base @ ''/''),
                  gha_token = token,
                  gha_version = sha_hex sha256 hex_encode (as_bytes ENTRY_FORMAT_VERSION),
                  gha_exhausted = False\<rparr>))"

definition is_success :: "u16 \<Rightarrow> bool" where
  "is_success status \<longleftrightarrow> 200 \<le> status \<and> status < 300"

definition rpc_error :: "('w, 'z) net_scheme \<Rightarrow> str \<Rightarrow> u16 \<Rightarrow> str \<Rightarrow> str" where
  "rpc_error N method status text = method @ '' returned '' @ net_show_status N status @ '': '' @ text"

definition gha_rpc ::
  "('w, 'z) net_scheme \<Rightarrow> (str \<Rightarrow> 'r option) \<Rightarrow> gha \<Rightarrow> str \<Rightarrow> rpc_request \<Rightarrow> 'w
     \<Rightarrow> (str + 'r) \<times> gha \<times> 'w" where
  "gha_rpc N parse g method body w =
     (case net_post N (gha_base g @ SERVICE @ ''/'' @ method) (gha_token g) body w of
        (None, w) \<Rightarrow> (Inl (''calling '' @ method), g, w)
      | (Some (status, text), w) \<Rightarrow>
          if status = 429
          then (Inl (rpc_error N method status text), g\<lparr>gha_exhausted := True\<rparr>, w)
          else if \<not> is_success status then (Inl (rpc_error N method status text), g, w)
          else case parse text of
            None \<Rightarrow> (Inl (''decoding '' @ method @ '' response: '' @ text), g, w)
          | Some r \<Rightarrow> (Inr r, g, w))"

definition scoped_prefix :: "str \<Rightarrow> str \<Rightarrow> str \<Rightarrow> str" where
  "scoped_prefix pre scope kind = pre @ ''-'' @ kind @ ''-'' @ scope @ ''-''"

definition is_already_exists :: "str \<Rightarrow> bool" where
  "is_already_exists text \<longleftrightarrow> contains text ''409'' \<or> contains text ''already_exists''"

definition gha_fetch ::
  "('w, 'z) net_scheme \<Rightarrow> gha \<Rightarrow> str \<Rightarrow> str list \<Rightarrow> 'w \<Rightarrow> (str + bytes option) \<times> gha \<times> 'w" where
  "gha_fetch N g key restore_keys w =
     (if gha_exhausted g then (Inr None, g, w)
      else case gha_rpc N (net_parse_download N) g ''GetCacheEntryDownloadURL''
          (DownloadRequest key (gha_version g) restore_keys) w of
        (Inl err, g, w) \<Rightarrow> (Inl err, g, w)
      | (Inr resp, g, w) \<Rightarrow>
          if \<not> dr_ok resp \<or> dr_signed_download_url resp = [] then (Inr None, g, w)
          else case net_get N (dr_signed_download_url resp) w of
            (None, w) \<Rightarrow> (Inl ''downloading cache blob'', g, w)
          | (Some (status, blob), w) \<Rightarrow>
              if \<not> is_success status
              then (Inl (''download for '' @ key @ '' returned '' @ net_show_status N status
                     @ '' despite the service offering it''), g, w)
              else case blob of
                None \<Rightarrow> (Inl ''reading cache blob'', g, w)
              | Some b \<Rightarrow> (Inr (Some b), g, w))"

definition gha_get :: "('w, 'z) net_scheme \<Rightarrow> gha \<Rightarrow> str \<Rightarrow> 'w \<Rightarrow> (str + bytes option) \<times> gha \<times> 'w" where
  "gha_get N g key w = gha_fetch N g key [] w"

definition gha_get_scoped ::
  "('w, 'z) net_scheme \<Rightarrow> gha \<Rightarrow> str \<Rightarrow> str \<Rightarrow> str \<Rightarrow> 'w \<Rightarrow> (str + bytes option) \<times> gha \<times> 'w" where
  "gha_get_scoped N g pre scope kind w =
     (let restore = scoped_prefix pre scope kind in gha_fetch N g restore [restore] w)"

definition gha_put :: "('w, 'z) net_scheme \<Rightarrow> gha \<Rightarrow> str \<Rightarrow> bytes \<Rightarrow> 'w \<Rightarrow> (str + bool) \<times> gha \<times> 'w" where
  "gha_put N g key data w =
     (if gha_exhausted g then (Inr False, g, w)
      else case gha_rpc N (net_parse_create N) g ''CreateCacheEntry'' (CreateRequest key (gha_version g)) w of
        (Inl err, g, w) \<Rightarrow> if is_already_exists err then (Inr False, g, w) else (Inl err, g, w)
      | (Inr create, g, w) \<Rightarrow>
          if \<not> cr_ok create \<or> cr_signed_upload_url create = [] then (Inr False, g, w)
          else
            let len = length data in
            case net_put N (cr_signed_upload_url create) (dec len) data w of
              (None, w) \<Rightarrow> (Inl ''uploading cache blob'', g, w)
            | (Some status, w) \<Rightarrow>
                if \<not> is_success status
                then (Inl (''blob upload returned '' @ net_show_status N status), g, w)
                else case gha_rpc N (net_parse_finalize N) g ''FinalizeCacheEntryUpload''
                    (FinalizeUploadRequest key (gha_version g) (dec len)) w of
                  (Inl err, g, w) \<Rightarrow> (Inl err, g, w)
                | (Inr finalize, g, w) \<Rightarrow> (Inr (fr_ok finalize), g, w))"

text \<open>The key an entry of a kind is filed under: prefix, seconds, run.\<close>

definition scoped_key :: "str \<Rightarrow> str \<Rightarrow> str \<Rightarrow> nat \<Rightarrow> str \<Rightarrow> str" where
  "scoped_key pre scope kind stamp run = scoped_prefix pre scope kind @ dec stamp @ ''-'' @ run"

definition gha_put_scoped ::
  "('w, 'z) net_scheme \<Rightarrow> gha \<Rightarrow> str \<Rightarrow> str \<Rightarrow> str \<Rightarrow> bytes \<Rightarrow> 'w \<Rightarrow> (str + bool) \<times> gha \<times> 'w" where
  "gha_put_scoped N g pre scope kind body w =
     (let stamp = net_now N w;
          run = (case net_env N ''GITHUB_RUN_ID'' of None \<Rightarrow> ''local'' | Some r \<Rightarrow> r) in
      gha_put N g (scoped_key pre scope kind stamp run) body w)"

section \<open>Exhaustion\<close>

lemma gha_rpc_state:
  assumes "gha_rpc N parse g method body w = (r, g', w')"
  shows "g' = g \<or> g' = g\<lparr>gha_exhausted := True\<rparr>"
  using assms by (auto simp: gha_rpc_def split: prod.splits option.splits if_splits)

lemma gha_rpc_InrD: "gha_rpc N parse g method body w = (Inr r, g', w') \<Longrightarrow> g' = g"
  by (auto simp: gha_rpc_def split: prod.splits option.splits if_splits)

text \<open>The calls the rest of the program makes, as one type, and a sequence of them.\<close>

datatype gha_call =
  CallGet str | CallPut str bytes | CallGetScoped str str str | CallPutScoped str str str bytes

fun gha_step :: "('w, 'z) net_scheme \<Rightarrow> gha_call \<Rightarrow> gha \<times> 'w \<Rightarrow> gha \<times> 'w" where
  "gha_step N (CallGet k) (g, w) = snd (gha_get N g k w)"
| "gha_step N (CallPut k b) (g, w) = snd (gha_put N g k b w)"
| "gha_step N (CallGetScoped pre s k) (g, w) = snd (gha_get_scoped N g pre s k w)"
| "gha_step N (CallPutScoped pre s k b) (g, w) = snd (gha_put_scoped N g pre s k b w)"

lemma gha_fetch_exhausted: "gha_exhausted g \<Longrightarrow> gha_fetch N g k rs w = (Inr None, g, w)"
  by (simp add: gha_fetch_def)

lemma gha_put_exhausted: "gha_exhausted g \<Longrightarrow> gha_put N g k b w = (Inr False, g, w)"
  by (simp add: gha_put_def)

lemma gha_step_exhausted: "gha_exhausted g \<Longrightarrow> gha_step N c (g, w) = (g, w)"
  by (cases c) (simp_all add: gha_get_def gha_get_scoped_def gha_put_scoped_def Let_def
      gha_fetch_exhausted gha_put_exhausted)

lemma gha_steps_exhausted: "gha_exhausted g \<Longrightarrow> fold (gha_step N) cs (g, w) = (g, w)"
  by (induction cs) (simp_all add: gha_step_exhausted)

section \<open>Properties\<close>

text \<open>C25. Once a lookup is answered with 429 the service is left alone for the rest of the job: the
  lookup fails, and whatever is asked for afterwards, no further call reaches the outside.\<close>

theorem rate_limit_stops_calls:
  assumes "\<not> gha_exhausted g"
    and "net_post N (gha_base g @ SERVICE @ ''/GetCacheEntryDownloadURL'') (gha_token g)
           (DownloadRequest key (gha_version g) []) w = (Some (429, msg), w')"
  shows "\<exists>err. fst (gha_get N g key w) = Inl err
    \<and> fold (gha_step N) calls (gha_step N (CallGet key) (g, w)) = (g\<lparr>gha_exhausted := True\<rparr>, w')"
proof -
  have "gha_get N g key w = (Inl (rpc_error N ''GetCacheEntryDownloadURL'' 429 msg),
      g\<lparr>gha_exhausted := True\<rparr>, w')"
    using assms by (simp add: gha_get_def gha_fetch_def gha_rpc_def)
  then show ?thesis by (simp add: gha_steps_exhausted)
qed

text \<open>C26. A store succeeds with \<open>true\<close> only if the service was asked, reserved the key, took the
  blob and finalized it: never for an exhausted client, a refused reservation or a failed upload.\<close>

theorem put_true_only_if_finalized:
  assumes "gha_put N g key data w = (Inr True, g', w')"
  shows "\<not> gha_exhausted g \<and> (\<exists>create w1 status w2 finalize.
      gha_rpc N (net_parse_create N) g ''CreateCacheEntry'' (CreateRequest key (gha_version g)) w
        = (Inr create, g, w1)
      \<and> cr_ok create \<and> cr_signed_upload_url create \<noteq> []
      \<and> net_put N (cr_signed_upload_url create) (dec (length data)) data w1 = (Some status, w2)
      \<and> is_success status
      \<and> gha_rpc N (net_parse_finalize N) g ''FinalizeCacheEntryUpload''
          (FinalizeUploadRequest key (gha_version g) (dec (length data))) w2 = (Inr finalize, g', w')
      \<and> fr_ok finalize)"
proof (cases "gha_rpc N (net_parse_create N) g ''CreateCacheEntry'' (CreateRequest key (gha_version g)) w")
  case (fields r g1 w1)
  with assms obtain create where r: "r = Inr create"
    by (auto simp: gha_put_def split: if_splits sum.splits)
  with fields have g1: "g1 = g" by (auto dest: gha_rpc_InrD)
  from assms fields r g1 obtain status w2 where
    put: "net_put N (cr_signed_upload_url create) (dec (length data)) data w1 = (Some status, w2)"
    by (auto simp: gha_put_def Let_def split: if_splits prod.splits option.splits)
  from assms fields r g1 put show ?thesis
    by (auto simp: gha_put_def Let_def split: if_splits prod.splits sum.splits)
qed

text \<open>A refused reservation, a reservation without a URL and an upload whose finalization the
  service did not accept give the same answer, \<open>false\<close>: the caller cannot tell an entry that
  exists from one that was never completed.\<close>

theorem put_unfinalized_looks_declined:
  assumes "\<not> gha_exhausted g"
    and "gha_rpc N (net_parse_create N) g ''CreateCacheEntry'' (CreateRequest key (gha_version g)) w
           = (Inr create, g, w1)"
    and "cr_ok create" and "cr_signed_upload_url create \<noteq> []"
    and "net_put N (cr_signed_upload_url create) (dec (length data)) data w1 = (Some status, w2)"
    and "is_success status"
    and "gha_rpc N (net_parse_finalize N) g ''FinalizeCacheEntryUpload''
           (FinalizeUploadRequest key (gha_version g) (dec (length data))) w2 = (Inr finalize, g, w3)"
    and "\<not> fr_ok finalize"
  shows "gha_put N g key data w = (Inr False, g, w3)"
  using assms by (simp add: gha_put_def)

text \<open>Looking entries up by a scope's prefix finds the entries of that scope, whenever they were
  written, but those of any scope that continues it after a dash as well.\<close>

theorem scoped_prefix_matches:
  "prefix (scoped_prefix pre scope kind) (scoped_key pre scope kind stamp run)
   \<and> prefix (scoped_prefix pre scope kind) (scoped_key pre (scope @ ''-'' @ rest) kind stamp run)"
  by (simp add: scoped_prefix_def scoped_key_def)

text \<open>Manifest and pack never stand in for each other: neither kind's prefix matches a key of
  the other, whatever the scopes and the time of writing, and neither matches an object's key,
  whose digest has no letter of theirs in front.\<close>

theorem scoped_kinds_disjoint:
  assumes "digest = [] \<or> hd digest \<noteq> CHR ''i'' \<and> hd digest \<noteq> CHR ''p''"
  shows "\<not> prefix (scoped_prefix pre s ''index'') (scoped_key pre t ''pack'' stamp run)
    \<and> \<not> prefix (scoped_prefix pre s ''pack'') (scoped_key pre t ''index'' stamp run)
    \<and> \<not> prefix (scoped_prefix pre s ''index'') (pre @ ''-'' @ digest)
    \<and> \<not> prefix (scoped_prefix pre s ''pack'') (pre @ ''-'' @ digest)"
  using assms by (cases digest) (auto simp: scoped_prefix_def scoped_key_def)

section \<open>A reference service for the witnesses\<close>

text \<open>
  An immutable key/value service with a call budget, as the documentation describes it: reserving
  an existing key is refused with 409, a finalized entry is found by its key or, newest first, by a
  restore prefix, and once the budget is spent every call is answered with 429. \<open>kv_files\<close> is the
  local disk, which the service does not touch.
\<close>

record kv_world =
  kv_entries :: "(str \<times> bytes) list"
  kv_pending :: "(str \<times> bytes) list"
  kv_budget :: nat
  kv_files :: "(str \<times> bytes) list"

fun kv_answer :: "rpc_request \<Rightarrow> kv_world \<Rightarrow> (u16 \<times> str) \<times> kv_world" where
  "kv_answer (CreateRequest k v) w =
     (if map_of (kv_entries w) k = None then ((200, k), w) else ((409, ''already_exists''), w))"
| "kv_answer (FinalizeUploadRequest k v n) w =
     (case map_of (kv_pending w) k of
        None \<Rightarrow> ((200, ''no''), w)
      | Some b \<Rightarrow> ((200, ''ok''), w\<lparr>kv_entries := (k, b) # kv_entries w\<rparr>))"
| "kv_answer (DownloadRequest k v rs) w =
     (case find (\<lambda>(e, b). e = k \<or> (\<exists>r \<in> set rs. prefix r e)) (kv_entries w) of
        None \<Rightarrow> ((200, []), w)
      | Some (e, b) \<Rightarrow> ((200, e), w))"

definition kv_net :: "kv_world net" where
  "kv_net =
     \<lparr>net_post = (\<lambda>url token body w.
        if kv_budget w = 0 then (Some (429, ''slow down''), w)
        else let (answer, w') = kv_answer body (w\<lparr>kv_budget := kv_budget w - 1\<rparr>) in (Some answer, w')),
      net_get = (\<lambda>url w. (Some (200, map_of (kv_entries w) url), w)),
      net_put = (\<lambda>url len b w. (Some 201, w\<lparr>kv_pending := (url, b) # kv_pending w\<rparr>)),
      net_parse_create = (\<lambda>t. Some \<lparr>cr_ok = True, cr_signed_upload_url = t\<rparr>),
      net_parse_finalize = (\<lambda>t. Some \<lparr>fr_ok = (t = ''ok'')\<rparr>),
      net_parse_download = (\<lambda>t. Some \<lparr>dr_ok = (t \<noteq> []), dr_signed_download_url = t\<rparr>),
      net_show_status = (\<lambda>s. dec (unat s)),
      net_now = (\<lambda>w. 1700),
      net_env = (\<lambda>_. None)\<rparr>"

definition kv_empty :: kv_world where
  "kv_empty = \<lparr>kv_entries = [], kv_pending = [], kv_budget = 9, kv_files = []\<rparr>"

definition demo_gha :: gha where
  "demo_gha = \<lparr>gha_base = ''b/'', gha_token = ''t'', gha_version = ''v'', gha_exhausted = False\<rparr>"

theorem rate_limit_stops_calls_witness:
  "\<exists>err. fst (gha_get kv_net demo_gha ''k'' (kv_empty\<lparr>kv_budget := 0\<rparr>)) = Inl err
    \<and> fold (gha_step kv_net) [CallPut ''k'' [1], CallGet ''j'']
        (gha_step kv_net (CallGet ''k'') (demo_gha, kv_empty\<lparr>kv_budget := 0\<rparr>))
      = (demo_gha\<lparr>gha_exhausted := True\<rparr>, kv_empty\<lparr>kv_budget := 0\<rparr>)"
  by (rule rate_limit_stops_calls [where msg = "''slow down''"])
    (simp_all add: demo_gha_def kv_net_def kv_empty_def)

lemma kv_put_true:
  "gha_put kv_net demo_gha ''k'' [1] kv_empty
     = (Inr True, demo_gha, kv_empty\<lparr>kv_entries := [(''k'', [1])], kv_pending := [(''k'', [1])], kv_budget := 7\<rparr>)"
  by (simp add: gha_put_def gha_rpc_def kv_net_def kv_empty_def demo_gha_def is_success_def Let_def)

theorem put_true_only_if_finalized_witness:
  "\<exists>create w1. gha_rpc kv_net (net_parse_create kv_net) demo_gha ''CreateCacheEntry''
      (CreateRequest ''k'' (gha_version demo_gha)) kv_empty = (Inr create, demo_gha, w1) \<and> cr_ok create"
  using put_true_only_if_finalized [OF kv_put_true] by blast

text \<open>The service of \<open>kv_net\<close>, but one that never accepts a finalization.\<close>

definition kv_net_unfinalized :: "kv_world net" where
  "kv_net_unfinalized = kv_net\<lparr>net_parse_finalize := (\<lambda>t. Some \<lparr>fr_ok = False\<rparr>)\<rparr>"

theorem put_unfinalized_looks_declined_witness:
  "fst (gha_put kv_net_unfinalized demo_gha ''k'' [1] kv_empty) = Inr False"
proof -
  let ?N = kv_net_unfinalized
  have "\<exists>w1 w2 w3.
      gha_rpc ?N (net_parse_create ?N) demo_gha ''CreateCacheEntry''
        (CreateRequest ''k'' (gha_version demo_gha)) kv_empty
        = (Inr \<lparr>cr_ok = True, cr_signed_upload_url = ''k''\<rparr>, demo_gha, w1)
      \<and> net_put ?N ''k'' (dec (length [1 :: u8])) [1] w1 = (Some 201, w2)
      \<and> gha_rpc ?N (net_parse_finalize ?N) demo_gha ''FinalizeCacheEntryUpload''
        (FinalizeUploadRequest ''k'' (gha_version demo_gha) (dec (length [1 :: u8]))) w2
        = (Inr \<lparr>fr_ok = False\<rparr>, demo_gha, w3)"
    by (simp add: kv_net_unfinalized_def kv_net_def gha_rpc_def kv_empty_def demo_gha_def is_success_def)
  then obtain w1 w2 w3 where steps:
    "gha_rpc ?N (net_parse_create ?N) demo_gha ''CreateCacheEntry''
        (CreateRequest ''k'' (gha_version demo_gha)) kv_empty
        = (Inr \<lparr>cr_ok = True, cr_signed_upload_url = ''k''\<rparr>, demo_gha, w1)"
    "net_put ?N ''k'' (dec (length [1 :: u8])) [1] w1 = (Some 201, w2)"
    "gha_rpc ?N (net_parse_finalize ?N) demo_gha ''FinalizeCacheEntryUpload''
        (FinalizeUploadRequest ''k'' (gha_version demo_gha) (dec (length [1 :: u8]))) w2
        = (Inr \<lparr>fr_ok = False\<rparr>, demo_gha, w3)"
    by blast
  have "gha_put ?N demo_gha ''k'' [1] kv_empty = (Inr False, demo_gha, w3)"
    by (rule put_unfinalized_looks_declined [OF _ steps(1) _ _ _ _ steps(3), where status = 201])
      (use steps(2) in \<open>simp_all add: demo_gha_def is_success_def\<close>)
  then show ?thesis by simp
qed

theorem scoped_kinds_disjoint_witness:
  "\<not> prefix (scoped_prefix ''p'' ''s'' ''index'') (scoped_key ''p'' ''t'' ''pack'' 7 ''local'')"
  using scoped_kinds_disjoint [of "''0f''" "''p''" "''s''" "''t''" 7 "''local''"] by simp

end
