(* ===== verification/Store.thy ===== *)
theory Store
  imports Gha Pack Stats "HOL-Library.List_Lexorder" "HOL-Library.Char_ord"
begin

text \<open>
  The two-level object store (\<open>src/src/store.rs\<close>): a local directory in front of the cache service,
  a manifest of the keys the service holds, a pack for small objects and a queue of uploads. The
  concurrent sets are HOL sets, the channel is the list of what was sent and not yet received, the
  directory and the service are the outside world. Messages on standard error are not modelled.
\<close>

section \<open>State\<close>

record store_config =
  cfg_key_prefix :: str
  cfg_scope :: str
  cfg_pack_threshold :: u64
  cfg_pack_limit :: u64
  cfg_concurrency :: nat

record store =
  sto_objects :: str
  sto_gha :: "gha option"
  sto_stats :: stats
  sto_remote_misses :: "str set"
  sto_queued :: "str set"
  sto_index :: "str set"
  sto_config :: store_config
  sto_index_dirty :: bool
  sto_packed :: "str set"
  sto_pack_dirty :: bool
  sto_tx :: bool \<comment> \<open>the sender is still there\<close>
  sto_channel :: "(str \<times> bytes) list"
  sto_uploader :: bool \<comment> \<open>the upload loop's handle is still there\<close>

text \<open>The file system: reading fails with \<open>None\<close>; writing says whether it succeeded.\<close>

record 'w sys = "'w net" +
  sys_read :: "str \<Rightarrow> 'w \<Rightarrow> bytes option"
  sys_write :: "str \<Rightarrow> bytes \<Rightarrow> 'w \<Rightarrow> bool \<times> 'w"

definition store_new :: "str \<Rightarrow> gha option \<Rightarrow> stats \<Rightarrow> store_config \<Rightarrow> store" where
  "store_new objects gha stats config =
     \<lparr>sto_objects = objects, sto_gha = gha, sto_stats = stats, sto_remote_misses = {},
      sto_queued = {}, sto_index = {}, sto_config = config, sto_index_dirty = False,
      sto_packed = {}, sto_pack_dirty = False, sto_tx = True, sto_channel = [],
      sto_uploader = True\<rparr>"

definition store_path :: "store \<Rightarrow> str \<Rightarrow> str" where
  "store_path s k = path_join (sto_objects s) k"

section \<open>The pack\<close>

fun unpack :: "('w, 'z) sys_scheme \<Rightarrow> obj list \<Rightarrow> store \<Rightarrow> 'w \<Rightarrow> store \<times> 'w" where
  "unpack S [] s w = (s, w)"
| "unpack S ((k, body) # objects) s w =
     (let (ok, w) = sys_write S (store_path s k) body w in
      unpack S objects (if ok then s\<lparr>sto_packed := insert k (sto_packed s)\<rparr> else s) w)"

definition load_pack :: "('w, 'z) sys_scheme \<Rightarrow> store \<Rightarrow> 'w \<Rightarrow> (store \<times> 'w) res" where
  "load_pack S s w =
     (case sto_gha s of
        None \<Rightarrow> Ok (s, w)
      | Some g \<Rightarrow>
          (case gha_get_scoped S g (cfg_key_prefix (sto_config s)) (cfg_scope (sto_config s)) ''pack'' w of
             (r, g, w) \<Rightarrow>
               let s = s\<lparr>sto_gha := Some g\<rparr> in
               case r of
                 Inl err \<Rightarrow> Ok (s, w)
               | Inr None \<Rightarrow> Ok (s, w)
               | Inr (Some raw) \<Rightarrow>
                   (case pack_decode raw of
                      Ok objects \<Rightarrow> Ok (unpack S objects s w)
                    | Err err \<Rightarrow> Ok (s, w)
                    | Panic \<Rightarrow> Panic)))"

definition read_objects :: "('w, 'z) sys_scheme \<Rightarrow> store \<Rightarrow> 'w \<Rightarrow> str list \<Rightarrow> obj list" where
  "read_objects S s w keys =
     List.map_filter (\<lambda>k. map_option (\<lambda>body. (k, body)) (sys_read S (store_path s k) w)) keys"

definition save_pack :: "('w, 'z) sys_scheme \<Rightarrow> store \<Rightarrow> 'w \<Rightarrow> store \<times> 'w" where
  "save_pack S s w =
     (case sto_gha s of
        None \<Rightarrow> (s, w)
      | Some g \<Rightarrow>
          if \<not> sto_pack_dirty s then (s, w)
          else
            let keys = sorted_list_of_set (sto_packed s);
                objects = read_objects S s w keys in
            if objects = [] then (s, w)
            else
              let body = pack_encode objects (cfg_pack_limit (sto_config s)) in
              case gha_put_scoped S g (cfg_key_prefix (sto_config s)) (cfg_scope (sto_config s)) ''pack'' body w of
                (Inr _, g, w) \<Rightarrow>
                  (s\<lparr>sto_gha := Some g,
                     sto_stats := record_packed (word_of_nat (length objects)) (word_of_nat (length body))
                       (sto_stats s)\<rparr>, w)
              | (Inl err, g, w) \<Rightarrow> (s\<lparr>sto_gha := Some g\<rparr>, w))"

section \<open>The manifest\<close>

definition manifest_keys :: "bytes \<Rightarrow> str list" where
  "manifest_keys raw = filter (\<lambda>line. trim line \<noteq> []) (str_lines (from_utf8_lossy raw))"

definition load_index :: "('w, 'z) sys_scheme \<Rightarrow> store \<Rightarrow> 'w \<Rightarrow> store \<times> 'w" where
  "load_index S s w =
     (case sto_gha s of
        None \<Rightarrow> (s, w)
      | Some g \<Rightarrow>
          (case gha_get_scoped S g (cfg_key_prefix (sto_config s)) (cfg_scope (sto_config s)) ''index'' w of
             (r, g, w) \<Rightarrow>
               let s = s\<lparr>sto_gha := Some g\<rparr> in
               case r of
                 Inr (Some raw) \<Rightarrow>
                   (s\<lparr>sto_index := fold insert (manifest_keys raw) (sto_index s)\<rparr>, w)
               | Inr None \<Rightarrow> (s, w)
               | Inl err \<Rightarrow> (s, w)))"

definition manifest_body :: "str set \<Rightarrow> bytes" where
  "manifest_body index = as_bytes (join [NL] (remdups_adj (sorted_list_of_set index)))"

definition save_index :: "('w, 'z) sys_scheme \<Rightarrow> store \<Rightarrow> 'w \<Rightarrow> store \<times> 'w" where
  "save_index S s w =
     (case sto_gha s of
        None \<Rightarrow> (s, w)
      | Some g \<Rightarrow>
          if \<not> sto_index_dirty s then (s, w)
          else
            case gha_put_scoped S g (cfg_key_prefix (sto_config s)) (cfg_scope (sto_config s)) ''index''
                (manifest_body (sto_index s)) w of
              (r, g, w) \<Rightarrow> (s\<lparr>sto_gha := Some g\<rparr>, w))"

section \<open>Lookup and insertion\<close>

definition store_get :: "('w, 'z) sys_scheme \<Rightarrow> str \<Rightarrow> store \<Rightarrow> 'w \<Rightarrow> bytes option \<times> store \<times> 'w" where
  "store_get S k s w =
     (case sys_read S (store_path s k) w of
        Some bytes \<Rightarrow> (Some bytes, s, w)
      | None \<Rightarrow>
          (case sto_gha s of
             None \<Rightarrow> (None, s, w)
           | Some g \<Rightarrow>
               if k \<notin> sto_index s then (None, s, w)
               else if k \<in> sto_remote_misses s then (None, s, w)
               else
                 (case gha_get S g k w of
                    (Inr (Some bytes), g, w) \<Rightarrow>
                      let (_, w) = sys_write S (store_path s k) bytes w in
                      (Some bytes, s\<lparr>sto_gha := Some g\<rparr>, w)
                  | (Inr None, g, w) \<Rightarrow>
                      (None, s\<lparr>sto_gha := Some g,
                               sto_remote_misses := insert k (sto_remote_misses s)\<rparr>, w)
                  | (Inl err, g, w) \<Rightarrow>
                      (None, s\<lparr>sto_gha := Some g,
                               sto_remote_misses := insert k (sto_remote_misses s)\<rparr>, w))))"

definition store_put :: "('w, 'z) sys_scheme \<Rightarrow> str \<Rightarrow> bytes \<Rightarrow> store \<Rightarrow> 'w \<Rightarrow> store \<times> 'w" where
  "store_put S k bytes s w =
     (if k \<in> sto_queued s then (s, w)
      else
        let s = s\<lparr>sto_queued := insert k (sto_queued s)\<rparr>;
            (_, w) = sys_write S (store_path s k) bytes w in
        if (word_of_nat (length bytes) :: u64) < cfg_pack_threshold (sto_config s)
        then
          (if k \<notin> sto_packed s
           then (s\<lparr>sto_packed := insert k (sto_packed s), sto_pack_dirty := True\<rparr>, w)
           else (s, w))
        else if sto_tx s then (s\<lparr>sto_channel := sto_channel s @ [(k, bytes)]\<rparr>, w)
        else (s, w))"

section \<open>Uploading\<close>

text \<open>The body of one spawned task of \<open>upload_loop\<close>, with what the service answered.\<close>

definition confirm :: "str \<Rightarrow> store \<Rightarrow> store" where
  "confirm k s =
     (if k \<notin> sto_index s then s\<lparr>sto_index := insert k (sto_index s), sto_index_dirty := True\<rparr> else s)"

definition upload_result :: "str \<Rightarrow> bytes \<Rightarrow> str + bool \<Rightarrow> store \<Rightarrow> store" where
  "upload_result k bytes r s =
     (case r of
        Inr True \<Rightarrow>
          confirm k (s\<lparr>sto_stats := record_upload (word_of_nat (length bytes)) True (sto_stats s)\<rparr>)
      | Inr False \<Rightarrow> confirm k s
      | Inl err \<Rightarrow> s\<lparr>sto_stats := record_upload 0 False (sto_stats s)\<rparr>)"

definition upload_task :: "('w, 'z) sys_scheme \<Rightarrow> str \<times> bytes \<Rightarrow> store \<Rightarrow> 'w \<Rightarrow> store \<times> 'w" where
  "upload_task S item s w =
     (case sto_gha s of
        None \<Rightarrow> (s, w)
      | Some g \<Rightarrow>
          (case gha_put S g (fst item) (snd item) w of
             (r, g, w) \<Rightarrow> (upload_result (fst item) (snd item) r (s\<lparr>sto_gha := Some g\<rparr>), w)))"

text \<open>The loop run to its end, one task after the other: one schedule of the concurrent loop.\<close>

fun drain :: "('w, 'z) sys_scheme \<Rightarrow> (str \<times> bytes) list \<Rightarrow> store \<Rightarrow> 'w \<Rightarrow> store \<times> 'w" where
  "drain S [] s w = (s\<lparr>sto_channel := []\<rparr>, w)"
| "drain S (item # rest) s w = (let (s, w) = upload_task S item s w in drain S rest s w)"

definition flush :: "('w, 'z) sys_scheme \<Rightarrow> store \<Rightarrow> 'w \<Rightarrow> store \<times> 'w" where
  "flush S s w =
     (let s = s\<lparr>sto_tx := False\<rparr>;
          (s, w) = (if sto_uploader s
                    then drain S (sto_channel s) (s\<lparr>sto_uploader := False\<rparr>) w else (s, w));
          (s, w) = save_index S s w in
      save_pack S s w)"

section \<open>The disk\<close>

text \<open>
  The file system's documented behaviour: what was written successfully is read back, other files
  are untouched, and talking to the service does not change files.
\<close>

definition disk_laws :: "('w, 'z) sys_scheme \<Rightarrow> bool" where
  "disk_laws S \<longleftrightarrow>
     (\<forall>p b w. fst (sys_write S p b w) \<longrightarrow> sys_read S p (snd (sys_write S p b w)) = Some b)
     \<and> (\<forall>p b w q. q \<noteq> p \<longrightarrow> sys_read S q (snd (sys_write S p b w)) = sys_read S q w)
     \<and> (\<forall>u t b w q. sys_read S q (snd (net_post S u t b w)) = sys_read S q w)
     \<and> (\<forall>u w q. sys_read S q (snd (net_get S u w)) = sys_read S q w)
     \<and> (\<forall>u n b w q. sys_read S q (snd (net_put S u n b w)) = sys_read S q w)"

text \<open>A disk with room: no write fails.\<close>

definition disk_writes :: "('w, 'z) sys_scheme \<Rightarrow> bool" where
  "disk_writes S \<longleftrightarrow> (\<forall>p b w. fst (sys_write S p b w))"

lemma disk_read_back:
  "disk_laws S \<Longrightarrow> sys_write S p b w = (True, w') \<Longrightarrow> sys_read S p w' = Some b"
  unfolding disk_laws_def by (metis fst_conv snd_conv)

lemma disk_read_other:
  "disk_laws S \<Longrightarrow> sys_write S p b w = (ok, w') \<Longrightarrow> q \<noteq> p \<Longrightarrow> sys_read S q w' = sys_read S q w"
  unfolding disk_laws_def by (metis snd_conv)

lemma disk_writes_ok: "disk_writes S \<Longrightarrow> sys_write S p b w = (ok, w') \<Longrightarrow> ok"
  unfolding disk_writes_def by (metis fst_conv)

lemma net_keeps_disk:
  "disk_laws S \<Longrightarrow> net_post S u t b w = (x, w') \<Longrightarrow> sys_read S q w' = sys_read S q w"
  "disk_laws S \<Longrightarrow> net_get S u w = (y, w') \<Longrightarrow> sys_read S q w' = sys_read S q w"
  "disk_laws S \<Longrightarrow> net_put S u n c w = (z, w') \<Longrightarrow> sys_read S q w' = sys_read S q w"
  unfolding disk_laws_def by (metis snd_conv)+

lemma gha_rpc_keeps_disk:
  "disk_laws S \<Longrightarrow> gha_rpc S parse g m body w = (r, g', w') \<Longrightarrow> sys_read S q w' = sys_read S q w"
  by (auto simp: gha_rpc_def net_keeps_disk split: prod.splits option.splits if_splits)

lemma gha_fetch_keeps_disk:
  assumes laws: "disk_laws S" and fetch: "gha_fetch S g k rs w = (r, g', w')"
  shows "sys_read S q w' = sys_read S q w"
proof -
  obtain x g1 w1 where rpc: "gha_rpc S (net_parse_download S) g ''GetCacheEntryDownloadURL''
      (DownloadRequest k (gha_version g) rs) w = (x, g1, w1)"
    by (metis prod_cases3)
  note rpc_kept = gha_rpc_keeps_disk [OF laws rpc, of q]
  show ?thesis
  proof (cases "w' = w \<or> w' = w1")
    case True
    then show ?thesis using rpc_kept by auto
  next
    case False
    then have "\<exists>u y. net_get S u w1 = (y, w')"
      using fetch rpc
      by (auto simp: gha_fetch_def split: if_splits prod.splits sum.splits option.splits)
    then show ?thesis using net_keeps_disk(2) [OF laws] rpc_kept by metis
  qed
qed

lemma gha_put_keeps_disk:
  assumes laws: "disk_laws S" and put: "gha_put S g k b w = (r, g', w')"
  shows "sys_read S q w' = sys_read S q w"
proof -
  obtain x g1 w1 where create: "gha_rpc S (net_parse_create S) g ''CreateCacheEntry''
      (CreateRequest k (gha_version g)) w = (x, g1, w1)"
    by (metis prod_cases3)
  note create_kept = gha_rpc_keeps_disk [OF laws create, of q]
  show ?thesis
  proof (cases "w' = w \<or> w' = w1")
    case True
    then show ?thesis using create_kept by auto
  next
    case False
    then have "\<exists>u y w2. net_put S u (dec (length b)) b w1 = (y, w2)
      \<and> (w' = w2 \<or> (\<exists>z g2. gha_rpc S (net_parse_finalize S) g1 ''FinalizeCacheEntryUpload''
        (FinalizeUploadRequest k (gha_version g1) (dec (length b))) w2 = (z, g2, w')))"
      using put create
      by (auto simp: gha_put_def Let_def split: if_splits prod.splits sum.splits option.splits) blast+
    then obtain u y w2 where up: "net_put S u (dec (length b)) b w1 = (y, w2)"
      and rest: "w' = w2 \<or> (\<exists>z g2. gha_rpc S (net_parse_finalize S) g1 ''FinalizeCacheEntryUpload''
        (FinalizeUploadRequest k (gha_version g1) (dec (length b))) w2 = (z, g2, w'))"
      by blast
    from net_keeps_disk(3) [OF laws up] create_kept
    have "sys_read S q w2 = sys_read S q w" by simp
    with rest show ?thesis by (auto dest: gha_rpc_keeps_disk [OF laws, where q = q])
  qed
qed

section \<open>The store as a cache\<close>

text \<open>What a lookup leaves alone, and where its answer comes from.\<close>

lemma store_get_frame:
  assumes "store_get S k s w = (r, s', w')"
  shows "sto_objects s' = sto_objects s \<and> sto_queued s' = sto_queued s \<and> sto_index s' = sto_index s
    \<and> sto_packed s' = sto_packed s \<and> sto_channel s' = sto_channel s \<and> sto_config s' = sto_config s
    \<and> sto_stats s' = sto_stats s \<and> sto_pack_dirty s' = sto_pack_dirty s
    \<and> sto_index_dirty s' = sto_index_dirty s \<and> sto_tx s' = sto_tx s \<and> sto_uploader s' = sto_uploader s"
  using assms
  by (auto simp: store_get_def Let_def split: option.splits if_splits prod.splits sum.splits)

lemma store_get_local: "sys_read S (store_path s k) w = Some b \<Longrightarrow> store_get S k s w = (Some b, s, w)"
  by (simp add: store_get_def)

lemma store_get_disk:
  assumes laws: "disk_laws S" and room: "disk_writes S" and get: "store_get S k s w = (r, s', w')"
  shows "(r \<noteq> None \<longrightarrow> sys_read S (store_path s k) w' = r)
    \<and> (\<forall>q. q \<noteq> store_path s k \<longrightarrow> sys_read S q w' = sys_read S q w)"
proof (cases "(r, w') = (sys_read S (store_path s k) w, w)")
  case True
  then show ?thesis by simp
next
  case False
  with get have "\<exists>g x g1 w1. gha_fetch S g k [] w = (x, g1, w1) \<and> (r = None \<and> w' = w1
      \<or> (\<exists>b ok. r = Some b \<and> sys_write S (store_path s k) b w1 = (ok, w')))"
    by (auto simp: store_get_def gha_get_def Let_def
        split: option.splits if_splits prod.splits sum.splits) blast+
  then obtain g x g1 w1 where fetch: "gha_fetch S g k [] w = (x, g1, w1)"
    and rest: "r = None \<and> w' = w1
      \<or> (\<exists>b ok. r = Some b \<and> sys_write S (store_path s k) b w1 = (ok, w'))"
    by blast
  note kept = gha_fetch_keeps_disk [OF laws fetch]
  from rest show ?thesis
  proof (elim disjE conjE exE)
    fix b ok
    assume r: "r = Some b" and wr: "sys_write S (store_path s k) b w1 = (ok, w')"
    from disk_writes_ok [OF room wr] wr have "sys_write S (store_path s k) b w1 = (True, w')" by simp
    from disk_read_back [OF laws this] r show ?thesis
      by (simp add: disk_read_other [OF laws wr] kept)
  qed (simp add: kept)
qed

lemma store_put_frame:
  assumes "store_put S k b s w = (s', w')"
  shows "sto_objects s' = sto_objects s \<and> sto_queued s' = insert k (sto_queued s)
    \<and> sto_index s' = sto_index s \<and> sto_gha s' = sto_gha s \<and> sto_config s' = sto_config s
    \<and> sto_remote_misses s' = sto_remote_misses s"
  using assms by (auto simp: store_put_def Let_def split: if_splits prod.splits)

lemma store_put_stats: "store_put S k b s w = (s', w') \<Longrightarrow> sto_stats s' = sto_stats s
    \<and> sto_index_dirty s' = sto_index_dirty s \<and> sto_tx s' = sto_tx s"
  by (auto simp: store_put_def Let_def split: if_splits prod.splits)

lemma store_put_disk:
  assumes "disk_laws S" "disk_writes S" "store_put S k b s w = (s', w')"
  shows "(k \<notin> sto_queued s \<longrightarrow> sys_read S (store_path s k) w' = Some b)
    \<and> (\<forall>q. q \<noteq> store_path s k \<longrightarrow> sys_read S q w' = sys_read S q w)"
proof (cases "k \<in> sto_queued s")
  case True
  with assms(3) show ?thesis by (simp add: store_put_def)
next
  case False
  obtain ok w1 where wr: "sys_write S (store_path s k) b w = (ok, w1)" by fastforce
  have "w' = w1"
    using assms(3) False wr by (auto simp: store_put_def store_path_def Let_def split: if_splits)
  with wr show ?thesis
    using disk_read_back [OF assms(1)] disk_read_other [OF assms(1) wr]
      disk_writes_ok [OF assms(2) wr] by auto
qed

text \<open>
  The store as the proxy uses it: a state is the outside, the store and the world. What it holds by
  itself is what is on its disk; keys are digests, so never absolute paths.
\<close>

type_synonym ('w, 'z) cache_state = "('w, 'z) sys_scheme \<times> store \<times> 'w"

definition cache_get :: "str \<Rightarrow> ('w, 'z) cache_state \<Rightarrow> bytes option \<times> ('w, 'z) cache_state" where
  "cache_get k c = (case c of (S, s, w) \<Rightarrow> case store_get S k s w of (r, s, w) \<Rightarrow> (r, S, s, w))"

definition cache_put :: "str \<Rightarrow> bytes \<Rightarrow> ('w, 'z) cache_state \<Rightarrow> ('w, 'z) cache_state" where
  "cache_put k b c = (case c of (S, s, w) \<Rightarrow> case store_put S k b s w of (s, w) \<Rightarrow> (S, s, w))"

definition cache_held :: "str \<Rightarrow> ('w, 'z) cache_state \<Rightarrow> bytes option" where
  "cache_held k c = (case c of (S, s, w) \<Rightarrow> sys_read S (store_path s k) w)"

definition cache_good :: "('w, 'z) cache_state \<Rightarrow> bool" where
  "cache_good c \<longleftrightarrow> disk_laws (fst c) \<and> disk_writes (fst c)"

definition cache_key :: "str \<Rightarrow> bool" where
  "cache_key k \<longleftrightarrow> \<not> starts_with k ''/''"

definition cache_fresh :: "str \<Rightarrow> ('w, 'z) cache_state \<Rightarrow> bool" where
  "cache_fresh k c \<longleftrightarrow> k \<notin> sto_queued (fst (snd c))"

lemmas cache_defs = cache_get_def cache_put_def cache_held_def cache_good_def cache_key_def
  cache_fresh_def

lemma store_path_inject:
  "\<not> starts_with j ''/'' \<Longrightarrow> \<not> starts_with k ''/'' \<Longrightarrow> store_path s j = store_path s k \<longleftrightarrow> j = k"
  by (simp add: store_path_def path_join_inject)

lemma store_path_get: "store_get S k s w = (r, s', w') \<Longrightarrow> store_path s' = store_path s"
  by (rule ext) (simp add: store_path_def store_get_frame)

lemma store_path_put: "store_put S k b s w = (s', w') \<Longrightarrow> store_path s' = store_path s"
  by (rule ext) (simp add: store_path_def store_put_frame)

interpretation store_cache:
  object_cache cache_get cache_put cache_held cache_good cache_key cache_fresh
proof (unfold_locales, goal_cases)
  case (1 k c b)
  then show ?case by (cases c) (simp add: cache_defs store_get_local)
next
  case (2 c k b)
  obtain S s w where c: "c = (S, s, w)" by (cases c)
  obtain r s' w' where get: "store_get S k s w = (r, s', w')" by (metis prod_cases3)
  from 2 c get store_get_disk [OF _ _ get] show ?case
    by (simp add: cache_defs store_path_get [OF get])
next
  case (3 c k j)
  obtain S s w where c: "c = (S, s, w)" by (cases c)
  obtain r s' w' where get: "store_get S j s w = (r, s', w')" by (metis prod_cases3)
  from 3 c get store_get_disk [OF _ _ get] show ?case
    by (simp add: cache_defs store_path_get [OF get] store_path_inject)
next
  case (4 c k b)
  obtain S s w where c: "c = (S, s, w)" by (cases c)
  obtain s' w' where put: "store_put S k b s w = (s', w')" by fastforce
  from 4 c put store_put_disk [OF _ _ put] show ?case
    by (simp add: cache_defs store_path_put [OF put])
next
  case (5 c k j b)
  obtain S s w where c: "c = (S, s, w)" by (cases c)
  obtain s' w' where put: "store_put S j b s w = (s', w')" by fastforce
  from 5 c put store_put_disk [OF _ _ put] show ?case
    by (simp add: cache_defs store_path_put [OF put] store_path_inject)
next
  case (6 k c b)
  then show ?case by (cases c) (simp add: cache_defs store_put_def)
next
  case (7 k b c)
  obtain S s w where c: "c = (S, s, w)" by (cases c)
  obtain s' w' where put: "store_put S k b s w = (s', w')" by fastforce
  from c put store_put_frame [OF put] show ?case by (simp add: cache_defs)
next
  case (8 k j c)
  obtain S s w where c: "c = (S, s, w)" by (cases c)
  obtain r s' w' where get: "store_get S j s w = (r, s', w')" by (metis prod_cases3)
  from c get store_get_frame [OF get] show ?case by (simp add: cache_defs)
next
  case (9 j k b c)
  obtain S s w where c: "c = (S, s, w)" by (cases c)
  obtain s' w' where put: "store_put S j b s w = (s', w')" by fastforce
  from 9 c put store_put_frame [OF put] show ?case by (simp add: cache_defs)
next
  case (10 c k)
  then show ?case by (auto simp: cache_defs split: prod.splits)
next
  case (11 c k b)
  then show ?case by (auto simp: cache_defs split: prod.splits)
qed

section \<open>What one job leaves for the next\<close>

lemma unpack_disk:
  assumes "disk_laws S" "disk_writes S"
  shows "unpack S objs s w = (s', w') \<Longrightarrow> distinct (map fst objs)
    \<Longrightarrow> \<forall>ob \<in> set objs. \<not> starts_with (fst ob) ''/''
    \<Longrightarrow> s' = s\<lparr>sto_packed := sto_packed s \<union> fst ` set objs\<rparr>
      \<and> (\<forall>ob \<in> set objs. sys_read S (store_path s (fst ob)) w' = Some (snd ob))
      \<and> (\<forall>q. q \<notin> store_path s ` fst ` set objs \<longrightarrow> sys_read S q w' = sys_read S q w)"
proof (induction objs arbitrary: s w)
  case Nil
  then show ?case by simp
next
  case (Cons ob objs)
  obtain k b where ob: "ob = (k, b)" by (cases ob)
  obtain ok w1 where wr: "sys_write S (store_path s k) b w = (ok, w1)" by fastforce
  have ok: ok using disk_writes_ok [OF assms(2) wr] .
  let ?s = "s\<lparr>sto_packed := insert k (sto_packed s)\<rparr>"
  have path: "store_path ?s = store_path s" by (rule ext) (simp add: store_path_def)
  from Cons.prems(1) ob wr ok have rest: "unpack S objs ?s w1 = (s', w')" by simp
  note IH = Cons.IH [OF rest]
  from Cons.prems ob have valid: "\<not> starts_with k ''/''" "\<forall>ob \<in> set objs. \<not> starts_with (fst ob) ''/''"
    and dist: "k \<notin> fst ` set objs" "distinct (map fst objs)" by auto
  have "store_path s k \<notin> store_path s ` fst ` set objs"
    using valid dist store_path_inject by (fastforce simp: image_iff)
  with IH [OF dist(2) valid(2)] path ok wr
  have "sys_read S (store_path s k) w' = Some b"
    using disk_read_back [OF assms(1), of "store_path s k" b w w1] by simp
  with IH [OF dist(2) valid(2)] path ob disk_read_other [OF assms(1) wr] show ?case by auto
qed

lemma read_objects_set:
  "ob \<in> set (read_objects S s w keys)
     \<longleftrightarrow> fst ob \<in> set keys \<and> sys_read S (store_path s (fst ob)) w = Some (snd ob)"
  by (cases ob) (auto simp: read_objects_def List.map_filter_def image_iff)

lemma read_objects_distinct: "distinct keys \<Longrightarrow> distinct (map fst (read_objects S s w keys))"
proof (induction keys)
  case (Cons k keys)
  then show ?case
    using read_objects_set [of _ S s w keys]
    by (cases "sys_read S (store_path s k) w") (auto simp: read_objects_def List.map_filter_simps)
qed (simp add: read_objects_def List.map_filter_simps)

text \<open>A key the manifest can hold: one line of text, not blank.\<close>

definition manifest_key :: "str \<Rightarrow> bool" where
  "manifest_key k \<longleftrightarrow> rust_str k \<and> plain_line k \<and> trim k \<noteq> []"

lemma manifest_keys_body:
  assumes "finite I" "\<forall>k \<in> I. manifest_key k"
  shows "manifest_keys (manifest_body I) = sorted_list_of_set I"
proof -
  have dedup: "remdups_adj (sorted_list_of_set I) = sorted_list_of_set I"
    using sorted_list_of_set.distinct_sorted_key_list_of_set [of I] by (simp add: remdups_adj_distinct)
  have keys: "\<forall>k \<in> set (sorted_list_of_set I). manifest_key k" using assms by simp
  have "rust_str [NL]" by (rule rust_str_ascii) (simp add: NL_def)
  with keys have "from_utf8_lossy (manifest_body I) = join [NL] (sorted_list_of_set I)"
    by (simp add: manifest_body_def dedup from_utf8_lossy_rust_str rust_str_join manifest_key_def)
  with keys show ?thesis
    by (simp add: manifest_keys_def str_lines_join manifest_key_def)
qed

section \<open>Properties\<close>

text \<open>A history of the store's traffic, for the properties' statements.\<close>

fun cache_run :: "str cache_op list \<Rightarrow> ('w, 'z) cache_state \<Rightarrow> ('w, 'z) cache_state" where
  "cache_run [] c = c"
| "cache_run (Lookup k # ops) c = cache_run ops (snd (cache_get k c))"
| "cache_run (Insert k b # ops) c = cache_run ops (cache_put k b c)"

lemma cache_run_fold: "cache_run ops c = fold store_cache.run_op ops c"
  by (induction ops c rule: cache_run.induct) simp_all

text \<open>C15. An object stored under a new key is found with its bytes whatever is looked up or stored
  afterwards, even under the same key, and whatever the cache service answers in between.\<close>

theorem stored_object_found:
  assumes "disk_laws S" "disk_writes S"
    and "k \<notin> sto_queued s"
    and "\<not> starts_with k ''/''" "\<forall>op \<in> set ops. \<not> starts_with (store_cache.op_key op) ''/''"
  shows "fst (cache_get k (cache_run ops (cache_put k b (S, s, w)))) = Some b"
  unfolding cache_run_fold
  by (rule store_cache.found_after_put) (use assms in \<open>simp_all add: cache_defs\<close>)

text \<open>The service is asked about a key at most once: a lookup that found nothing leaves a state
  in which the same lookup again finds nothing without any call and without any change; and a key
  that neither the disk nor the manifest has is answered without a call at all.\<close>

theorem missed_lookup_remembered:
  assumes "disk_laws S" "store_get S k s w = (None, s1, w1)"
  shows "store_get S k s1 w1 = (None, s1, w1) \<and> (k \<notin> sto_index s \<longrightarrow> (s1, w1) = (s, w))"
proof (cases "(s1, w1) = (s, w)")
  case True
  with assms(2) show ?thesis by simp
next
  case False
  with assms(2) have absent: "sys_read S (store_path s k) w = None" "k \<in> sto_index s"
    and "\<exists>g r g1. gha_fetch S g k [] w = (r, g1, w1)
      \<and> s1 = s\<lparr>sto_gha := Some g1, sto_remote_misses := insert k (sto_remote_misses s)\<rparr>"
    by (auto simp: store_get_def gha_get_def Let_def
        split: option.splits if_splits prod.splits sum.splits)
  then obtain g r g1 where fetch: "gha_fetch S g k [] w = (r, g1, w1)"
    and s1: "s1 = s\<lparr>sto_gha := Some g1, sto_remote_misses := insert k (sto_remote_misses s)\<rparr>" by blast
  from gha_fetch_keeps_disk [OF assms(1) fetch] absent s1
  show ?thesis by (simp add: store_get_def store_path_def)
qed

text \<open>Each stored object takes exactly one way to the service: a repeated key goes nowhere and
  writes nothing, an object below the threshold is filed in the pack and never sent on its own, one
  at or above it is queued once, with its bytes, unless the queue is already closed.\<close>

theorem put_takes_one_way:
  assumes "store_put S k b s w = (s', w')"
  shows "(if k \<in> sto_queued s then s' = s \<and> w' = w
     else w' = snd (sys_write S (store_path s k) b w) \<and> sto_queued s' = insert k (sto_queued s) \<and>
      (if (word_of_nat (length b) :: u64) < cfg_pack_threshold (sto_config s)
       then sto_packed s' = insert k (sto_packed s) \<and> sto_channel s' = sto_channel s
         \<and> (sto_pack_dirty s' \<longleftrightarrow> sto_pack_dirty s \<or> k \<notin> sto_packed s)
       else sto_packed s' = sto_packed s \<and> sto_pack_dirty s' = sto_pack_dirty s
         \<and> sto_channel s' = sto_channel s @ (if sto_tx s then [(k, b)] else [])))"
  using assms by (auto simp: store_put_def store_path_def Let_def split: if_splits prod.splits)

text \<open>What the manifest of one job lists, the next one that is handed its bytes knows: every key
  survives the text format, none is invented, and keys known already stay known.\<close>

theorem manifest_carries_over:
  assumes "finite (sto_index s1)" "\<forall>k \<in> sto_index s1. manifest_key k"
    and "sto_gha s = Some g"
    and "gha_get_scoped S g (cfg_key_prefix (sto_config s)) (cfg_scope (sto_config s)) ''index'' w
      = (Inr (Some (manifest_body (sto_index s1))), g', w')"
  shows "load_index S s w = (s\<lparr>sto_gha := Some g', sto_index := sto_index s \<union> sto_index s1\<rparr>, w')"
  using assms by (simp add: load_index_def manifest_keys_body Un_commute flip: union_set_fold)


text \<open>With the service refusing calls, a queued object's upload makes no call and stores nothing,
  and yet its key enters the manifest and the manifest is due to be written.\<close>

theorem exhausted_upload_still_listed:
  assumes "sto_gha s = Some g" "gha_exhausted g" "k \<notin> sto_index s"
  shows "upload_task S (k, b) s w = (s\<lparr>sto_index := insert k (sto_index s), sto_index_dirty := True\<rparr>, w)"
  using assms by (simp add: upload_task_def gha_put_exhausted upload_result_def confirm_def)

text \<open>With the service refusing calls the pack is not sent at all, and yet its objects and bytes
  are what the statistics report as packed.\<close>

theorem exhausted_pack_still_counted:
  assumes "sto_gha s = Some g" "gha_exhausted g" "sto_pack_dirty s"
    and "objs = read_objects S s w (sorted_list_of_set (sto_packed s))" "objs \<noteq> []"
  shows "save_pack S s w = (s\<lparr>sto_stats := record_packed (word_of_nat (length objs))
      (word_of_nat (length (pack_encode objs (cfg_pack_limit (sto_config s))))) (sto_stats s)\<rparr>, w)"
  using assms by (simp add: save_pack_def gha_put_scoped_def gha_put_exhausted Let_def)

section \<open>Witnesses\<close>

text \<open>The reference service of \<open>Gha\<close> with its files.\<close>

definition kv_sys :: "kv_world sys" where
  "kv_sys = net.extend kv_net
     (sys.fields (\<lambda>p w. map_of (kv_files w) p) (\<lambda>p b w. (True, w\<lparr>kv_files := (p, b) # kv_files w\<rparr>)))"

lemma kv_sys_simps [simp]:
  "net_post kv_sys = net_post kv_net" "net_get kv_sys = net_get kv_net"
  "net_put kv_sys = net_put kv_net" "net_parse_create kv_sys = net_parse_create kv_net"
  "net_parse_finalize kv_sys = net_parse_finalize kv_net"
  "net_parse_download kv_sys = net_parse_download kv_net"
  "net_show_status kv_sys = net_show_status kv_net" "net_now kv_sys = net_now kv_net"
  "net_env kv_sys = net_env kv_net"
  "sys_read kv_sys p w = map_of (kv_files w) p"
  "sys_write kv_sys p b w = (True, w\<lparr>kv_files := (p, b) # kv_files w\<rparr>)"
  by (simp_all add: kv_sys_def net.defs sys.defs)

lemma kv_answer_files: "kv_answer r w = (x, w') \<Longrightarrow> kv_files w' = kv_files w"
  by (cases r) (auto split: option.splits if_splits)

lemma kv_disk: "disk_laws kv_sys" "disk_writes kv_sys"
  by (auto simp: disk_laws_def disk_writes_def kv_net_def Let_def dest!: kv_answer_files split: prod.splits)

definition demo_config :: store_config where
  "demo_config = \<lparr>cfg_key_prefix = ''c'', cfg_scope = ''s'', cfg_pack_threshold = 2,
     cfg_pack_limit = 100, cfg_concurrency = 2\<rparr>"

definition demo_store :: store where
  "demo_store = store_new ''d'' (Some demo_gha) stats_default demo_config"

lemmas demo_defs = demo_store_def store_new_def demo_config_def demo_gha_def kv_empty_def


theorem stored_object_found_witness:
  "fst (cache_get ''k'' (cache_run [Lookup ''j'', Insert ''k'' [9], Insert ''j'' [1], Lookup ''k'']
      (cache_put ''k'' [7, 8] (kv_sys, demo_store, kv_empty)))) = Some [7, 8]"
  by (rule stored_object_found [OF kv_disk]) (auto simp: demo_defs starts_with_def)

lemma demo_miss: "store_get kv_sys ''k'' (demo_store\<lparr>sto_index := {''k''}\<rparr>) kv_empty
    = (None, demo_store\<lparr>sto_index := {''k''}, sto_remote_misses := {''k''}\<rparr>, kv_empty\<lparr>kv_budget := 8\<rparr>)"
  by (simp add: store_get_def demo_defs gha_get_def gha_fetch_def gha_rpc_def kv_net_def is_success_def)

theorem missed_lookup_remembered_witness:
  "\<exists>s1 w1. store_get kv_sys ''k'' (demo_store\<lparr>sto_index := {''k''}\<rparr>) kv_empty = (None, s1, w1)
     \<and> kv_budget w1 \<noteq> kv_budget kv_empty \<and> store_get kv_sys ''k'' s1 w1 = (None, s1, w1)"
  using missed_lookup_remembered [OF kv_disk(1) demo_miss] demo_miss by (simp add: kv_empty_def)

theorem put_takes_one_way_witness:
  "sto_channel (fst (store_put kv_sys ''k'' [7, 8] demo_store kv_empty)) = [(''k'', [7, 8])]"
proof -
  obtain s' w' where "store_put kv_sys ''k'' [7, 8] demo_store kv_empty = (s', w')" by fastforce
  from put_takes_one_way [OF this] this show ?thesis by (simp add: demo_defs)
qed

lemma demo_manifest_key: "manifest_key ''k''"
  unfolding manifest_key_def
proof (intro conjI)
  show "rust_str ''k''" by (rule rust_str_ascii) simp
  show "plain_line ''k''" by (simp add: plain_line_def NL_def CR_def)
  have "trim ''k'' = ''k''" by (rule trim_id) (simp_all add: solid_def ws1_def)
  then show "trim ''k'' \<noteq> []" by simp
qed

theorem manifest_carries_over_witness:
  "sto_index (fst (load_index kv_sys (demo_store\<lparr>sto_index := {''j''}\<rparr>)
     (kv_empty\<lparr>kv_entries := [(''c-index-s-7-local'', manifest_body {''k''})]\<rparr>))) = {''j'', ''k''}"
proof -
  let ?w = "kv_empty\<lparr>kv_entries := [(''c-index-s-7-local'', manifest_body {''k''})]\<rparr>"
  have "gha_get_scoped kv_sys demo_gha ''c'' ''s'' ''index'' ?w
      = (Inr (Some (manifest_body {''k''})), demo_gha, ?w\<lparr>kv_budget := 8\<rparr>)"
    by (simp add: gha_get_scoped_def gha_fetch_def gha_rpc_def kv_net_def is_success_def
        scoped_prefix_def demo_defs)
  then show ?thesis
    using manifest_carries_over [of "demo_store\<lparr>sto_index := {''k''}\<rparr>" "demo_store\<lparr>sto_index := {''j''}\<rparr>"
        demo_gha kv_sys ?w] demo_manifest_key
    by (simp add: demo_defs insert_commute)
qed


lemma tired_gha: "sto_gha (demo_store\<lparr>sto_gha := Some (demo_gha\<lparr>gha_exhausted := True\<rparr>)\<rparr>)
    = Some (demo_gha\<lparr>gha_exhausted := True\<rparr>)"
  by simp

theorem exhausted_upload_still_listed_witness:
  "sto_index (fst (upload_task kv_sys (''k'', [7, 8])
     (demo_store\<lparr>sto_gha := Some (demo_gha\<lparr>gha_exhausted := True\<rparr>)\<rparr>) kv_empty)) = {''k''}"
  using exhausted_upload_still_listed [OF tired_gha, of "''k''" kv_sys "[7, 8]" kv_empty]
  by (simp add: demo_defs)

theorem exhausted_pack_still_counted_witness:
  "st_packed (sto_stats (fst (save_pack kv_sys
     (demo_store\<lparr>sto_gha := Some (demo_gha\<lparr>gha_exhausted := True\<rparr>), sto_packed := {''k''},
        sto_pack_dirty := True\<rparr>) (kv_empty\<lparr>kv_files := [(''d/k'', [7])]\<rparr>)))) = 1"
proof -
  let ?g = "demo_gha\<lparr>gha_exhausted := True\<rparr>"
  let ?s = "demo_store\<lparr>sto_gha := Some ?g, sto_packed := {''k''}, sto_pack_dirty := True\<rparr>"
  let ?w = "kv_empty\<lparr>kv_files := [(''d/k'', [7])]\<rparr>"
  have "store_path ?s ''k'' = ''d/k''"
    by (simp add: demo_defs store_path_def path_join_def starts_with_def ends_with_def)
  then have objs: "[(''k'', [7])] = read_objects kv_sys ?s ?w (sorted_list_of_set (sto_packed ?s))"
    by (simp add: read_objects_def List.map_filter_simps)
  show ?thesis
    using exhausted_pack_still_counted [of ?s ?g "[(''k'', [7])]" kv_sys ?w, OF _ _ _ objs]
    by (simp add: demo_store_def store_new_def record_packed_def)
qed

end
