(* ===== verification/Upload.thy ===== *)
theory Upload
  imports Store
begin

text \<open>
  The upload loop of the store (\<open>upload_loop\<close> in \<open>src/src/store.rs\<close>) as a transition system. Its
  tasks run beside the requests that fill the queue and beside each other, so a job is a sequence
  of steps in any order: traffic (lookups and insertions, closing the queue) and the loop's own
  (receive an item under a permit, a task finishing with the service's answer). What the service
  answers, and what else changes in the world and in the client meanwhile, is arbitrary in the
  steps, so the invariants hold for every interleaving of the calls the tasks make.
\<close>

section \<open>The machine\<close>

type_synonym upload = "(str \<times> bytes) \<times> (str + bool)"

record 'w job =
  job_store :: store
  job_world :: 'w
  job_running :: "(str \<times> bytes) list" \<comment> \<open>tasks holding a permit\<close>
  job_done :: "upload list" \<comment> \<open>finished tasks with their answers, oldest first\<close>
  job_late :: "str set" \<comment> \<open>keys put after the queue was closed\<close>

inductive traffic_step :: "('w, 'z) sys_scheme \<Rightarrow> 'w job \<Rightarrow> 'w job \<Rightarrow> bool" for S where
  serve_get: "store_get S k (job_store j) (job_world j) = (r, s, w)
    \<Longrightarrow> traffic_step S j (j\<lparr>job_store := s, job_world := w\<rparr>)"
| serve_put: "store_put S k b (job_store j) (job_world j) = (s, w)
    \<Longrightarrow> traffic_step S j (j\<lparr>job_store := s, job_world := w,
          job_late := (if sto_tx (job_store j) then job_late j else insert k (job_late j))\<rparr>)"
| close: "traffic_step S j (j\<lparr>job_store := (job_store j)\<lparr>sto_tx := False\<rparr>\<rparr>)"

text \<open>\<open>max 1\<close> is the semaphore's \<open>concurrency.max(1)\<close>.\<close>

inductive loop_step :: "'w job \<Rightarrow> 'w job \<Rightarrow> bool" where
  skip: "sto_gha (job_store j) = None \<Longrightarrow> sto_channel (job_store j) = item # rest
    \<Longrightarrow> loop_step j (j\<lparr>job_store := (job_store j)\<lparr>sto_channel := rest\<rparr>\<rparr>)"
| recv: "sto_gha (job_store j) = Some g \<Longrightarrow> sto_channel (job_store j) = item # rest
    \<Longrightarrow> length (job_running j) < max 1 (cfg_concurrency (sto_config (job_store j)))
    \<Longrightarrow> loop_step j (j\<lparr>job_store := (job_store j)\<lparr>sto_channel := rest\<rparr>,
          job_running := job_running j @ [item]\<rparr>)"
| finish: "job_running j = xs @ item # ys \<Longrightarrow> sto_gha (job_store j) = Some g
    \<Longrightarrow> loop_step j (j\<lparr>job_store := upload_result (fst item) (snd item) r
            ((job_store j)\<lparr>sto_gha := Some g'\<rparr>),
          job_world := w, job_running := xs @ ys, job_done := job_done j @ [(item, r)]\<rparr>)"

definition job_step :: "('w, 'z) sys_scheme \<Rightarrow> 'w job \<Rightarrow> 'w job \<Rightarrow> bool" where
  "job_step S j j' \<longleftrightarrow> traffic_step S j j' \<or> loop_step j j'"

inductive_cases traffic_stepE: "traffic_step S j j'"
inductive_cases loop_stepE: "loop_step j j'"
inductive_simps loop_step_simps: "loop_step j j'"

text \<open>A job whose manifest and pack are loaded and that has served nothing yet.\<close>

definition job_start :: "store \<Rightarrow> 'w \<Rightarrow> 'w job" where
  "job_start s w = \<lparr>job_store = s, job_world = w, job_running = [], job_done = [], job_late = {}\<rparr>"

definition unused :: "store \<Rightarrow> bool" where
  "unused s \<longleftrightarrow> sto_queued s = {} \<and> sto_channel s = [] \<and> \<not> sto_index_dirty s"

section \<open>Invariant\<close>

text \<open>The items of a job in the order they were queued, and what its answers amount to.\<close>

definition job_items :: "'w job \<Rightarrow> (str \<times> bytes) list" where
  "job_items j = map fst (job_done j) @ job_running j @ sto_channel (job_store j)"

definition confirmed :: "upload list \<Rightarrow> str set" where
  "confirmed ups = {k. \<exists>b ok. ((k, b), Inr ok) \<in> set ups}"

definition answered :: "(str + bool \<Rightarrow> bool) \<Rightarrow> upload list \<Rightarrow> nat" where
  "answered P ups = length (filter (\<lambda>u. P (snd u)) ups)"

definition uploaded_bytes :: "upload list \<Rightarrow> nat" where
  "uploaded_bytes ups = sum_list (map (\<lambda>u. length (snd (fst u))) (filter (\<lambda>u. snd u = Inr True) ups))"

lemma confirmed_simps [simp]:
  "confirmed [] = {}"
  "confirmed (ups @ [((k, b), Inl e)]) = confirmed ups"
  "confirmed (ups @ [((k, b), Inr ok)]) = insert k (confirmed ups)"
  by (auto simp: confirmed_def)

lemma answered_simps [simp]:
  "answered P [] = 0"
  "answered P (ups @ [u]) = answered P ups + (if P (snd u) then 1 else 0)"
  by (auto simp: answered_def)

lemma uploaded_bytes_simps [simp]:
  "uploaded_bytes [] = 0"
  "uploaded_bytes (ups @ [u]) = uploaded_bytes ups + (if snd u = Inr True then length (snd (fst u)) else 0)"
  by (auto simp: uploaded_bytes_def)

definition once_inv :: "'w job \<Rightarrow> bool" where
  "once_inv j \<longleftrightarrow>
     length (job_running j) \<le> max 1 (cfg_concurrency (sto_config (job_store j)))
     \<and> distinct (map fst (job_items j)) \<and> fst ` set (job_items j) \<subseteq> sto_queued (job_store j)"

definition index_inv :: "str set \<Rightarrow> 'w job \<Rightarrow> bool" where
  "index_inv I j \<longleftrightarrow>
     sto_index (job_store j) = I \<union> confirmed (job_done j)
     \<and> (sto_index_dirty (job_store j) \<longleftrightarrow> \<not> confirmed (job_done j) \<subseteq> I)"

definition count_inv :: "stats \<Rightarrow> 'w job \<Rightarrow> bool" where
  "count_inv st j \<longleftrightarrow>
     st_entries_stored (sto_stats (job_store j))
       = st_entries_stored st + word_of_nat (answered (\<lambda>r. r = Inr True) (job_done j))
     \<and> st_uploads_failed (sto_stats (job_store j))
       = st_uploads_failed st + word_of_nat (answered (\<lambda>r. \<exists>e. r = Inl e) (job_done j))
     \<and> st_bytes_uploaded (sto_stats (job_store j))
       = st_bytes_uploaded st + word_of_nat (uploaded_bytes (job_done j))"

definition account_inv :: "'w job \<Rightarrow> bool" where
  "account_inv j \<longleftrightarrow> (sto_gha (job_store j) \<noteq> None \<longrightarrow>
     sto_queued (job_store j)
       \<subseteq> sto_packed (job_store j) \<union> fst ` set (job_items j) \<union> job_late j)
     \<and> (\<forall>item \<in> set (job_items j).
         cfg_pack_threshold (sto_config (job_store j)) \<le> (word_of_nat (length (snd item)) :: u64))"

definition job_inv :: "str set \<Rightarrow> stats \<Rightarrow> 'w job \<Rightarrow> bool" where
  "job_inv I st j \<longleftrightarrow> once_inv j \<and> index_inv I j \<and> count_inv st j \<and> account_inv j"

lemma upload_result_frame [simp]:
  "sto_queued (upload_result k b r s) = sto_queued s" "sto_channel (upload_result k b r s) = sto_channel s"
  "sto_config (upload_result k b r s) = sto_config s" "sto_gha (upload_result k b r s) = sto_gha s"
  "sto_packed (upload_result k b r s) = sto_packed s" "sto_tx (upload_result k b r s) = sto_tx s"
  by (auto simp: upload_result_def confirm_def split: sum.splits bool.splits)

lemma upload_result_index:
  "sto_index (upload_result k b r s) = (if \<exists>ok. r = Inr ok then insert k (sto_index s) else sto_index s)"
  "sto_index_dirty (upload_result k b r s)
     \<longleftrightarrow> sto_index_dirty s \<or> (\<exists>ok. r = Inr ok) \<and> k \<notin> sto_index s"
  by (auto simp: upload_result_def confirm_def split: sum.splits bool.splits)

lemma upload_result_counts:
  "st_entries_stored (sto_stats (upload_result k b r s))
     = st_entries_stored (sto_stats s) + (if r = Inr True then 1 else 0)"
  "st_uploads_failed (sto_stats (upload_result k b r s))
     = st_uploads_failed (sto_stats s) + (if \<exists>e. r = Inl e then 1 else 0)"
  "st_bytes_uploaded (sto_stats (upload_result k b r s))
     = st_bytes_uploaded (sto_stats s) + (if r = Inr True then word_of_nat (length b) else 0)"
  by (auto simp: upload_result_def confirm_def record_upload_def split: sum.splits bool.splits)

lemma store_put_channel: "store_put S k b s w = (s', w') \<Longrightarrow>
    (sto_channel s' = sto_channel s \<and> (k \<in> sto_queued s \<or> \<not> sto_tx s \<or> k \<in> sto_packed s')
     \<or> sto_channel s' = sto_channel s @ [(k, b)] \<and> k \<notin> sto_queued s
       \<and> cfg_pack_threshold (sto_config s) \<le> (word_of_nat (length b) :: u64))
    \<and> sto_packed s \<subseteq> sto_packed s'"
  by (auto simp: store_put_def Let_def not_less split: if_splits prod.splits)

lemma store_get_gha: "store_get S k s w = (r, s', w') \<Longrightarrow> sto_gha s' = None \<longleftrightarrow> sto_gha s = None"
  by (auto simp: store_get_def Let_def split: option.splits if_splits prod.splits sum.splits)

lemma distinct_submultiset:
  assumes "mset xs \<subseteq># mset ys" "distinct ys"
  shows "distinct xs"
proof -
  have "count (mset xs) a = (if a \<in> set xs then 1 else 0)" for a
  proof -
    have "count (mset xs) a \<le> 1"
      using mset_subset_eq_count [OF assms(1), of a] assms(2)
      by (auto simp: distinct_count_atmost_1 not_in_iff split: if_splits) (metis count_mset_0_iff le_trans le_SucI le_refl)
    then consider "count (mset xs) a = 0" | "count (mset xs) a = 1" by linarith
    then show ?thesis by cases (metis count_mset_0_iff zero_neq_one)+
  qed
  then show ?thesis by (simp add: distinct_count_atmost_1)
qed

lemma job_items_update [simp]:
  "job_items (j\<lparr>job_late := l\<rparr>) = job_items j" "job_items (j\<lparr>job_world := w\<rparr>) = job_items j"
  by (simp_all add: job_items_def)

lemma store_put_items:
  assumes "store_put S k b (job_store j) w = (s, w')"
  shows "job_items (j\<lparr>job_store := s\<rparr>) = job_items j
      \<and> (k \<in> sto_queued (job_store j) \<or> \<not> sto_tx (job_store j) \<or> k \<in> sto_packed s)
    \<or> job_items (j\<lparr>job_store := s\<rparr>) = job_items j @ [(k, b)] \<and> k \<notin> sto_queued (job_store j)
      \<and> cfg_pack_threshold (sto_config (job_store j)) \<le> (word_of_nat (length b) :: u64)"
  using store_put_channel [OF assms] by (auto simp: job_items_def)

lemma traffic_once: "traffic_step S j j' \<Longrightarrow> once_inv j \<Longrightarrow> once_inv j'"
proof (induction rule: traffic_step.induct)
  case (serve_get k j r s w)
  then show ?case using store_get_frame [OF serve_get(1)] by (simp add: once_inv_def job_items_def)
next
  case (serve_put k b j s w)
  from store_put_items [OF serve_put(1)] store_put_frame [OF serve_put(1)] serve_put(2)
  show ?case by (elim disjE) (auto simp: once_inv_def)
qed (simp add: once_inv_def job_items_def)

lemma traffic_index: "traffic_step S j j' \<Longrightarrow> index_inv I j \<Longrightarrow> index_inv I j'"
proof (induction rule: traffic_step.induct)
  case (serve_get k j r s w)
  then show ?case using store_get_frame [OF serve_get(1)] by (simp add: index_inv_def)
next
  case (serve_put k b j s w)
  then show ?case
    using store_put_frame [OF serve_put(1)] store_put_stats [OF serve_put(1)] by (simp add: index_inv_def)
qed (simp add: index_inv_def)

lemma traffic_count: "traffic_step S j j' \<Longrightarrow> count_inv st j \<Longrightarrow> count_inv st j'"
proof (induction rule: traffic_step.induct)
  case (serve_get k j r s w)
  then show ?case using store_get_frame [OF serve_get(1)] by (simp add: count_inv_def)
next
  case (serve_put k b j s w)
  then show ?case using store_put_stats [OF serve_put(1)] by (simp add: count_inv_def)
qed (simp add: count_inv_def)

lemma traffic_account: "traffic_step S j j' \<Longrightarrow> account_inv j \<Longrightarrow> account_inv j'"
proof (induction rule: traffic_step.induct)
  case (serve_get k j r s w)
  then show ?case
    using store_get_frame [OF serve_get(1)] store_get_gha [OF serve_get(1)]
    by (simp add: account_inv_def job_items_def)
next
  case (serve_put k b j s w)
  have "sto_packed (job_store j) \<subseteq> sto_packed s" using store_put_channel [OF serve_put(1)] by blast
  with store_put_items [OF serve_put(1)] store_put_frame [OF serve_put(1)] serve_put(2)
  show ?case by (elim disjE) (auto simp: account_inv_def)
qed (simp add: account_inv_def job_items_def)

text \<open>The loop moves items along: what it drops, without a service, is gone; the rest stays.\<close>

lemma loop_items:
  "loop_step j j' \<Longrightarrow> mset (job_items j') = mset (job_items j)
     \<or> (\<exists>item. mset (job_items j) = add_mset item (mset (job_items j')))"
  by (induction rule: loop_step.induct) (auto simp: job_items_def)

lemma loop_keys:
  assumes "loop_step j j'"
  shows "set (job_items j') \<subseteq> set (job_items j)"
    and "distinct (map fst (job_items j)) \<Longrightarrow> distinct (map fst (job_items j'))"
proof -
  from loop_items [OF assms] have sub: "mset (job_items j') \<subseteq># mset (job_items j)" by auto
  from set_mset_mono [OF this] show "set (job_items j') \<subseteq> set (job_items j)" by simp
  from image_mset_subseteq_mono [OF sub]
  have "mset (map fst (job_items j')) \<subseteq># mset (map fst (job_items j))" by simp
  then show "distinct (map fst (job_items j)) \<Longrightarrow> distinct (map fst (job_items j'))"
    by (rule distinct_submultiset)
qed

lemma loop_frame:
  "loop_step j j' \<Longrightarrow> sto_queued (job_store j') = sto_queued (job_store j)
     \<and> sto_packed (job_store j') = sto_packed (job_store j)
     \<and> sto_config (job_store j') = sto_config (job_store j)
     \<and> sto_tx (job_store j') = sto_tx (job_store j) \<and> job_late j' = job_late j
     \<and> (sto_gha (job_store j') = None \<longleftrightarrow> sto_gha (job_store j) = None)"
  by (induction rule: loop_step.induct) auto

lemma loop_once:
  assumes "loop_step j j'" "once_inv j"
  shows "once_inv j'"
proof -
  have "length (job_running j') \<le> max 1 (cfg_concurrency (sto_config (job_store j)))"
    using assms by (induction rule: loop_step.induct) (auto simp: once_inv_def)
  moreover have "fst ` set (job_items j') \<subseteq> sto_queued (job_store j)"
    using image_mono [OF loop_keys(1) [OF assms(1)], of fst] assms(2) by (auto simp: once_inv_def)
  ultimately show ?thesis
    using loop_keys(2) [OF assms(1)] loop_frame [OF assms(1)] assms(2) by (simp add: once_inv_def)
qed

lemma loop_index: "loop_step j j' \<Longrightarrow> index_inv I j \<Longrightarrow> index_inv I j'"
proof (induction rule: loop_step.induct)
  case (finish j xs item ys g r g' w)
  then show ?case
    by (cases item; cases r) (auto simp: index_inv_def upload_result_index)
qed (simp_all add: index_inv_def)

lemma loop_count: "loop_step j j' \<Longrightarrow> count_inv st j \<Longrightarrow> count_inv st j'"
proof (induction rule: loop_step.induct)
  case (finish j xs item ys g r g' w)
  then show ?case
    by (cases r) (auto simp: count_inv_def upload_result_counts)
qed (simp_all add: count_inv_def)

lemma loop_account:
  assumes "loop_step j j'" "account_inv j"
  shows "account_inv j'"
proof -
  have "set (job_items j') = set (job_items j)" if "sto_gha (job_store j) \<noteq> None"
    using assms(1) that by (induction rule: loop_step.induct) (auto simp: job_items_def)
  with loop_keys(1) [OF assms(1)] loop_frame [OF assms(1)] assms(2) show ?thesis
    by (auto simp: account_inv_def)
qed

lemma job_inv_step: "job_inv I st j \<Longrightarrow> job_step S j j' \<Longrightarrow> job_inv I st j'"
  by (auto simp: job_inv_def job_step_def intro: traffic_once traffic_index traffic_count
      traffic_account loop_once loop_index loop_count loop_account)

interpretation jobs: stepping "job_step S" "job_inv I st" for S I st
  by unfold_locales (rule job_inv_step)

lemma job_inv_start: "unused s \<Longrightarrow> job_inv (sto_index s) (sto_stats s) (job_start s w)"
  by (simp add: job_inv_def once_inv_def index_inv_def count_inv_def account_inv_def job_items_def
      job_start_def unused_def)

lemma job_inv_run:
  "(job_step S)\<^sup>*\<^sup>* (job_start s w) j \<Longrightarrow> unused s \<Longrightarrow> job_inv (sto_index s) (sto_stats s) j"
  by (rule jobs.inv_reachable) (auto intro: job_inv_start)

section \<open>Teardown\<close>

text \<open>The store's sequential \<open>drain\<close> is one schedule of the loop.\<close>

lemma upload_task_channel:
  "upload_task S item (s\<lparr>sto_channel := c\<rparr>) w
     = (case upload_task S item s w of (s', w') \<Rightarrow> (s'\<lparr>sto_channel := c\<rparr>, w'))"
  by (auto simp: upload_task_def upload_result_def confirm_def split: option.splits prod.splits
      sum.splits bool.splits)

lemma drain_channel: "drain S items (s\<lparr>sto_channel := c\<rparr>) w = drain S items s w"
  by (induction items arbitrary: s w) (auto simp: upload_task_channel split: prod.splits)

lemma task_steps:
  assumes "upload_task S item s w = (s1, w1)"
  shows "\<exists>d. loop_step\<^sup>*\<^sup>*
      \<lparr>job_store = s\<lparr>sto_channel := item # rest\<rparr>, job_world = w, job_running = [], job_done = done, job_late = l\<rparr>
      \<lparr>job_store = s1\<lparr>sto_channel := rest\<rparr>, job_world = w1, job_running = [], job_done = done @ d, job_late = l\<rparr>"
proof (cases "sto_gha s")
  case None
  let ?j = "\<lparr>job_store = s\<lparr>sto_channel := item # rest\<rparr>, job_world = w, job_running = [], job_done = done, job_late = l\<rparr>"
  from None have "loop_step ?j (?j\<lparr>job_store := (job_store ?j)\<lparr>sto_channel := rest\<rparr>\<rparr>)"
    by (intro loop_step.skip [where item = item]) simp_all
  with None assms show ?thesis by (intro exI [of _ "[]"]) (auto simp: upload_task_def)
next
  case (Some g)
  obtain r g' where put: "gha_put S g (fst item) (snd item) w = (r, g', w1)"
    and s1: "s1 = upload_result (fst item) (snd item) r (s\<lparr>sto_gha := Some g'\<rparr>)"
    using assms Some by (auto simp: upload_task_def split: prod.splits)
  let ?j = "\<lparr>job_store = s\<lparr>sto_channel := item # rest\<rparr>, job_world = w, job_running = [], job_done = done, job_late = l\<rparr>"
  let ?m = "?j\<lparr>job_store := (job_store ?j)\<lparr>sto_channel := rest\<rparr>, job_running := job_running ?j @ [item]\<rparr>"
  from Some have first: "loop_step ?j ?m" by (intro loop_step.recv [where g = g]) simp_all
  let ?e = "?m\<lparr>job_store := upload_result (fst item) (snd item) r ((job_store ?m)\<lparr>sto_gha := Some g'\<rparr>),
      job_world := w1, job_running := [] @ [], job_done := job_done ?m @ [(item, r)]\<rparr>"
  from Some have "loop_step ?m ?e" by (intro loop_step.finish [where g = g]) simp_all
  with first have steps: "loop_step\<^sup>*\<^sup>* ?j ?e" by (rule converse_rtranclp_into_rtranclp [OF _ r_into_rtranclp])
  have "upload_result (fst item) (snd item) r (s\<lparr>sto_channel := rest, sto_gha := Some g'\<rparr>)
      = s1\<lparr>sto_channel := rest\<rparr>"
    by (auto simp: s1 upload_result_def confirm_def split: sum.splits bool.splits)
  then have "?e = \<lparr>job_store = s1\<lparr>sto_channel := rest\<rparr>, job_world = w1, job_running = [],
      job_done = done @ [(item, r)], job_late = l\<rparr>" by simp
  with steps show ?thesis by metis
qed

lemma drain_steps:
  "drain S items s w = (s', w') \<Longrightarrow> \<exists>d. loop_step\<^sup>*\<^sup>*
      \<lparr>job_store = s\<lparr>sto_channel := items\<rparr>, job_world = w, job_running = [], job_done = done, job_late = l\<rparr>
      \<lparr>job_store = s', job_world = w', job_running = [], job_done = done @ d, job_late = l\<rparr>"
proof (induction items arbitrary: s w "done")
  case Nil
  then show ?case by (intro exI [of _ "[]"]) auto
next
  case (Cons item items)
  obtain s1 w1 where task: "upload_task S item s w = (s1, w1)" by fastforce
  from task_steps [OF this] obtain d where first: "loop_step\<^sup>*\<^sup>*
      \<lparr>job_store = s\<lparr>sto_channel := item # items\<rparr>, job_world = w, job_running = [], job_done = done, job_late = l\<rparr>
      \<lparr>job_store = s1\<lparr>sto_channel := items\<rparr>, job_world = w1, job_running = [], job_done = done @ d, job_late = l\<rparr>"
    by blast
  from Cons.prems task have "drain S items s1 w1 = (s', w')" by simp
  from Cons.IH [OF this, of "done @ d"] obtain d2 where second: "loop_step\<^sup>*\<^sup>*
      \<lparr>job_store = s1\<lparr>sto_channel := items\<rparr>, job_world = w1, job_running = [], job_done = done @ d, job_late = l\<rparr>
      \<lparr>job_store = s', job_world = w', job_running = [], job_done = (done @ d) @ d2, job_late = l\<rparr>"
    by blast
  from rtranclp_trans [OF first second] show ?case by (intro exI [of _ "d @ d2"]) simp
qed

lemma drain_settles:
  "drain S items s w = (s', w') \<Longrightarrow> sto_gha s = Some g \<Longrightarrow> \<exists>ups. map fst ups = items
     \<and> sto_index s' = sto_index s \<union> confirmed ups
     \<and> st_entries_stored (sto_stats s')
       = st_entries_stored (sto_stats s) + word_of_nat (answered (\<lambda>r. r = Inr True) ups)
     \<and> st_uploads_failed (sto_stats s')
       = st_uploads_failed (sto_stats s) + word_of_nat (answered (\<lambda>r. \<exists>e. r = Inl e) ups)
     \<and> sto_channel s' = [] \<and> sto_tx s' = sto_tx s"
proof (induction items arbitrary: s w g)
  case Nil
  then show ?case by (intro exI [of _ "[]"]) auto
next
  case (Cons item items)
  obtain k b where item: "item = (k, b)" by (cases item)
  obtain r g1 w1 where put: "gha_put S g k b w = (r, g1, w1)" by (metis prod_cases3)
  let ?s = "upload_result k b r (s\<lparr>sto_gha := Some g1\<rparr>)"
  from Cons.prems put item have "drain S items ?s w1 = (s', w')" by (simp add: upload_task_def)
  from Cons.IH [OF this] obtain ups where ups: "map fst ups = items"
    "sto_index s' = sto_index ?s \<union> confirmed ups"
    "st_entries_stored (sto_stats s')
       = st_entries_stored (sto_stats ?s) + word_of_nat (answered (\<lambda>r. r = Inr True) ups)"
    "st_uploads_failed (sto_stats s')
       = st_uploads_failed (sto_stats ?s) + word_of_nat (answered (\<lambda>r. \<exists>e. r = Inl e) ups)"
    "sto_channel s' = []" "sto_tx s' = sto_tx ?s"
    by auto
  then show ?case
    by (intro exI [of _ "(item, r) # ups"])
      (cases r; auto simp: item upload_result_index upload_result_counts answered_def confirmed_def)
qed

section \<open>Termination\<close>

definition loop_left :: "'w job \<Rightarrow> nat" where
  "loop_left j = 2 * length (sto_channel (job_store j)) + length (job_running j)"

lemma loop_step_decreases: "loop_step j j' \<Longrightarrow> loop_left j' < loop_left j"
  by (induction rule: loop_step.induct) (auto simp: loop_left_def)

lemma loop_step_enabled:
  assumes "sto_channel (job_store j) \<noteq> [] \<or> job_running j \<noteq> [] \<and> sto_gha (job_store j) \<noteq> None"
  shows "\<exists>j'. loop_step j j'"
proof (cases "sto_gha (job_store j)")
  case None
  with assms obtain item rest where "sto_channel (job_store j) = item # rest"
    by (cases "sto_channel (job_store j)") auto
  with None show ?thesis by (blast intro: loop_step.skip)
next
  case (Some g)
  show ?thesis
  proof (cases "job_running j")
    case Nil
    with assms obtain item rest where "sto_channel (job_store j) = item # rest"
      by (cases "sto_channel (job_store j)") auto
    with Some Nil have "loop_step j (j\<lparr>job_store := (job_store j)\<lparr>sto_channel := rest\<rparr>,
        job_running := job_running j @ [item]\<rparr>)"
      by (intro loop_step.recv [where g = g]) simp_all
    then show ?thesis by blast
  next
    case (Cons item ys)
    then have "job_running j = [] @ item # ys" by simp
    from loop_step.finish [OF this Some] show ?thesis by blast
  qed
qed

lemma loop_step_stuck: "sto_channel (job_store j) = [] \<Longrightarrow> job_running j = [] \<Longrightarrow> \<not> loop_step j j'"
  by (simp add: loop_step_simps)

section \<open>Properties\<close>

text \<open>However requests and uploads interleave, no key is uploaded twice in a job, waiting,
  running and finished uploads taken together, and never more tasks run than the configured
  concurrency, or one.\<close>

theorem each_key_uploaded_once:
  assumes "unused s" "(job_step S)\<^sup>*\<^sup>* (job_start s w) j"
  shows "distinct (map fst (map fst (job_done j) @ job_running j @ sto_channel (job_store j)))
    \<and> length (job_running j) \<le> max 1 (cfg_concurrency (sto_config (job_store j)))"
  using job_inv_run [OF assms(2,1)] by (simp add: job_inv_def once_inv_def job_items_def)

text \<open>At any moment the manifest is what was loaded plus the keys the service answered for,
  whatever the order the uploads finished in: a failed upload is never listed, and the manifest is
  due to be written exactly when an answer added a key to it.\<close>

theorem manifest_lists_answered_keys:
  assumes "unused s" "(job_step S)\<^sup>*\<^sup>* (job_start s w) j"
  shows "sto_index (job_store j) = sto_index s \<union> {k. \<exists>b ok. ((k, b), Inr ok) \<in> set (job_done j)}
    \<and> (sto_index_dirty (job_store j) \<longleftrightarrow> (\<exists>k b ok. ((k, b), Inr ok) \<in> set (job_done j) \<and> k \<notin> sto_index s))"
  using job_inv_run [OF assms(2,1)] by (auto simp: job_inv_def index_inv_def confirmed_def)


text \<open>C18. The upload loop always comes to an end: its steps are well-founded, and it stops only with
  an empty queue and no task running, so teardown's wait for it returns once each task returns.\<close>

theorem upload_loop_ends:
  "wfP (\<lambda>j' j. loop_step j j')
   \<and> (sto_gha (job_store j) \<noteq> None \<longrightarrow>
       (\<nexists>j'. loop_step j j') = (sto_channel (job_store j) = [] \<and> job_running j = []))"
proof
  have "wf {(j', j). loop_step j j'}"
    by (rule wf_subset [OF wf_measure [of loop_left]]) (auto simp: loop_step_decreases)
  then show "wfP (\<lambda>j' j. loop_step j j')" by (simp add: wfp_def)
next
  show "sto_gha (job_store j) \<noteq> None \<longrightarrow>
      (\<nexists>j'. loop_step j j') = (sto_channel (job_store j) = [] \<and> job_running j = [])"
    using loop_step_enabled [of j] loop_step_stuck [of j] by blast
qed


text \<open>Teardown settles every queued object: each is offered to the service, in order; the keys
  answered for, and no others, join the manifest; the rest are counted as failed; afterwards the
  queue is empty and closed.\<close>

theorem flush_settles_uploads:
  assumes "flush S s w = (s', w')" "sto_uploader s" "sto_gha s = Some g"
  shows "\<exists>ups. map fst ups = sto_channel s \<and> sto_index s' = sto_index s \<union> confirmed ups
    \<and> st_entries_stored (sto_stats s') = st_entries_stored (sto_stats s)
        + word_of_nat (answered (\<lambda>r. r = Inr True) ups)
    \<and> st_uploads_failed (sto_stats s') = st_uploads_failed (sto_stats s)
        + word_of_nat (answered (\<lambda>r. \<exists>e. r = Inl e) ups)
    \<and> sto_channel s' = [] \<and> \<not> sto_tx s'"
proof -
  let ?s = "s\<lparr>sto_tx := False, sto_uploader := False\<rparr>"
  obtain s1 w1 s2 w2 where drained: "drain S (sto_channel s) ?s w = (s1, w1)"
    and saved: "save_index S s1 w1 = (s2, w2)" "save_pack S s2 w2 = (s', w')"
    using assms(1,2) by (auto simp: flush_def Let_def split: prod.splits)
  from saved have "sto_index s' = sto_index s1 \<and> sto_channel s' = sto_channel s1 \<and> sto_tx s' = sto_tx s1
    \<and> st_entries_stored (sto_stats s') = st_entries_stored (sto_stats s1)
    \<and> st_uploads_failed (sto_stats s') = st_uploads_failed (sto_stats s1)"
    by (auto simp: save_index_def save_pack_def Let_def record_packed_def
        split: option.splits if_splits prod.splits sum.splits)
  with drain_settles [OF drained] assms(3) show ?thesis by auto
qed

section \<open>Witnesses\<close>

text \<open>A job that stores one large object, whose upload a concurrent job's has overtaken.\<close>

definition demo_waiting :: store where
  "demo_waiting = demo_store\<lparr>sto_queued := {''k''}, sto_channel := [(''k'', [7, 8])]\<rparr>"

definition demo_job :: "kv_world job" where
  "demo_job = \<lparr>job_store = upload_result ''k'' [7, 8] (Inr False) (demo_waiting\<lparr>sto_channel := []\<rparr>),
     job_world = kv_empty, job_running = [], job_done = [((''k'', [7, 8]), Inr False)], job_late = {}\<rparr>"

lemma demo_unused: "unused demo_store"
  by (simp add: unused_def demo_store_def store_new_def)

lemma demo_waiting_fields [simp]:
  "sto_gha demo_waiting = Some demo_gha" "sto_channel demo_waiting = [(''k'', [7, 8])]"
  "sto_tx demo_store" "sto_uploader demo_waiting"
  "sto_gha (demo_waiting\<lparr>sto_channel := c\<rparr>) = Some demo_gha"
  by (simp_all add: demo_waiting_def demo_store_def store_new_def)

lemma demo_run: "(job_step kv_sys)\<^sup>*\<^sup>* (job_start demo_store kv_empty) demo_job"
proof -
  define j0 where "j0 = job_start demo_store kv_empty"
  let ?w = "kv_empty\<lparr>kv_files := [(''d/k'', [7, 8])]\<rparr>"
  have "store_put kv_sys ''k'' [7, 8] demo_store kv_empty = (demo_waiting, ?w)"
    by (simp add: store_put_def demo_waiting_def demo_defs store_path_def path_join_def starts_with_def
        ends_with_def)
  then have put: "store_put kv_sys ''k'' [7, 8] (job_store j0) (job_world j0) = (demo_waiting, ?w)"
    by (simp add: j0_def job_start_def)
  define j1 where "j1 = j0\<lparr>job_store := demo_waiting, job_world := ?w,
    job_late := (if sto_tx (job_store j0) then job_late j0 else insert ''k'' (job_late j0))\<rparr>"
  from serve_put [OF put] have one: "job_step kv_sys j0 j1" by (simp add: job_step_def j1_def)
  define j2 where "j2 = j1\<lparr>job_store := (job_store j1)\<lparr>sto_channel := []\<rparr>,
    job_running := job_running j1 @ [(''k'', [7, 8])]\<rparr>"
  have "loop_step j1 j2" unfolding j2_def
    by (rule loop_step.recv [where g = demo_gha]) (simp_all add: j1_def j0_def job_start_def)
  then have two: "job_step kv_sys j1 j2" by (simp add: job_step_def)
  let ?item = "(''k'', [7, 8 :: u8])"
  have "loop_step j2 (j2\<lparr>job_store := upload_result (fst ?item) (snd ?item) (Inr False)
      ((job_store j2)\<lparr>sto_gha := Some demo_gha\<rparr>),
    job_world := kv_empty, job_running := [] @ [], job_done := job_done j2 @ [(?item, Inr False)]\<rparr>)"
    by (rule loop_step.finish [where g = demo_gha]) (simp_all add: j2_def j1_def j0_def job_start_def)
  moreover have "(job_store j2)\<lparr>sto_gha := Some demo_gha\<rparr> = demo_waiting\<lparr>sto_channel := []\<rparr>"
    by (simp add: j2_def j1_def demo_waiting_def demo_store_def store_new_def)
  ultimately have three: "job_step kv_sys j2 demo_job"
    by (simp add: job_step_def demo_job_def) (simp add: j2_def j1_def j0_def job_start_def)
  note extend = rtranclp.rtrancl_into_rtrancl [where r = "job_step kv_sys"]
  from one have "(job_step kv_sys)\<^sup>*\<^sup>* j0 j1" by (rule r_into_rtranclp)
  from extend [OF extend [OF this two] three] show ?thesis unfolding j0_def .
qed

theorem each_key_uploaded_once_witness: "distinct (map fst (map fst (job_done demo_job)))"
  using each_key_uploaded_once [OF demo_unused demo_run] by (simp add: demo_job_def)

theorem manifest_lists_answered_keys_witness: "sto_index (job_store demo_job) = {''k''}"
  using manifest_lists_answered_keys [OF demo_unused demo_run]
  by (auto simp: demo_job_def demo_store_def store_new_def)


theorem upload_loop_ends_witness: "\<nexists>j'. loop_step demo_job j'"
proof -
  have "sto_gha (job_store demo_job) \<noteq> None" "sto_channel (job_store demo_job) = []" "job_running demo_job = []"
    by (simp_all add: demo_job_def)
  then show ?thesis using upload_loop_ends [of demo_job] by blast
qed


theorem flush_settles_uploads_witness:
  "\<exists>ups. map fst ups = [(''k'', [7, 8])]
     \<and> sto_index (fst (flush kv_sys demo_waiting kv_empty)) = sto_index demo_waiting \<union> confirmed ups"
proof -
  obtain s' w' where run: "flush kv_sys demo_waiting kv_empty = (s', w')" by fastforce
  have "sto_uploader demo_waiting" "sto_gha demo_waiting = Some demo_gha" by simp_all
  from flush_settles_uploads [OF run this] obtain ups where "map fst ups = sto_channel demo_waiting"
    "sto_index s' = sto_index demo_waiting \<union> confirmed ups" by blast
  then show ?thesis by (intro exI [of _ ups]) (simp add: run)
qed

end
