(* ===== verification/Proxy.thy ===== *)
theory Proxy
  imports Entry Policy Store
begin

text \<open>
  The forward proxy (\<open>src/src/proxy.rs\<close>): how a request is turned into a response, and what it
  does to store and statistics on the way. Every handler is a function from the proxy's state and
  the world to a response and both; an \<open>Err\<close> is the \<open>anyhow\<close> error the code propagates, a
  \<open>Panic\<close> ends the task. The HTTP clients, the JSON codec, the digest and the crates' types are
  arguments. Sockets, TLS and the accept loop are not modelled.
\<close>

section \<open>Messages and the outside\<close>

text \<open>A request as \<open>hyper\<close> presents it; collecting its body may fail.\<close>

record 'h request =
  req_method :: str
  req_uri :: str
  req_authority :: "(str \<times> u16 option) option" \<comment> \<open>host and port of the URI's authority\<close>
  req_path :: str
  req_path_and_query :: "str option"
  req_headers :: 'h
  req_body :: "str + bytes"

text \<open>A response's body is sent whole or passed on as it arrives, with what it turns out to be.\<close>

datatype body = Full bytes | Streamed "str + bytes"

record 'h response =
  res_status :: u16
  res_headers :: 'h
  res_body :: body

text \<open>An upstream response; reading its body may fail.\<close>

record 'h upstream =
  up_status :: u16
  up_headers :: 'h
  up_content_length :: "u64 option"
  up_body :: "str + bytes"

datatype redirects = Limited nat | NoRedirects

record ('w, 'h) web = "'w sys" +
  web_request :: "redirects \<Rightarrow> str \<Rightarrow> str \<Rightarrow> 'h \<Rightarrow> bytes \<Rightarrow> 'w \<Rightarrow> (str + 'h upstream) \<times> 'w"
    \<comment> \<open>redirect policy of the client; method, URL, headers, body\<close>
  web_clock :: "'w \<Rightarrow> nat" \<comment> \<open>milliseconds\<close>

record ('u, 'h) crates =
  lib_url :: "'u url_ops"
  lib_headers :: "'h header_ops"
  lib_sha256 :: "bytes \<Rightarrow> bytes"
  lib_hex :: "bytes \<Rightarrow> str"
  lib_to_vec :: "cache_header \<Rightarrow> bytes res"
  lib_from_slice :: "bytes \<Rightarrow> cache_header res"
  lib_summary_json :: "summary \<Rightarrow> str"

record proxy =
  px_policy :: policy
  px_store :: store \<comment> \<open>with the statistics it shares\<close>
  px_fetcher :: redirects
  px_forwarder :: redirects
  px_mitm_ports :: "u16 list"
  px_shutdown :: bool

text \<open>\<open>built\<close> says whether the two HTTP clients could be built.\<close>

definition proxy_new :: "bool \<Rightarrow> policy \<Rightarrow> store \<Rightarrow> u16 list \<Rightarrow> bool \<Rightarrow> proxy res" where
  "proxy_new built policy store mitm_ports follow_redirects =
     (if \<not> built then Err ''builder error''
      else Ok
        \<lparr>px_policy = policy, px_store = store,
         px_fetcher = (if follow_redirects then Limited 10 else NoRedirects),
         px_forwarder = NoRedirects, px_mitm_ports = mitm_ports, px_shutdown = False\<rparr>)"

definition px_record :: "outcome \<Rightarrow> str \<Rightarrow> str \<Rightarrow> u64 \<Rightarrow> u64 \<Rightarrow> proxy \<Rightarrow> proxy" where
  "px_record outcome method url bytes millis p =
     p\<lparr>px_store := (px_store p)\<lparr>sto_stats :=
         stats_record outcome method url bytes millis (sto_stats (px_store p))\<rparr>\<rparr>"

section \<open>Building responses\<close>

definition PROXY_HOP_BY_HOP :: "str list" where
  "PROXY_HOP_BY_HOP =
     [''connection'', ''keep-alive'', ''proxy-authenticate'', ''proxy-authorization'',
      ''proxy-connection'', ''te'', ''trailer'', ''transfer-encoding'', ''upgrade'']"

definition sanitize :: "'h header_ops \<Rightarrow> 'h \<Rightarrow> 'h" where
  "sanitize H headers =
     foldl (\<lambda>out (name, value).
         if List.member PROXY_HOP_BY_HOP name \<or> name = ''host'' then out
         else hm_append H name value out)
       (hm_new H) (hm_iter H headers)"

definition insert_cache_header :: "'h header_ops \<Rightarrow> str \<Rightarrow> 'h \<Rightarrow> 'h" where
  "insert_cache_header H cache headers =
     (case hv_from_str H cache of
        Some value \<Rightarrow> hm_insert H ''x-cicache'' value headers
      | None \<Rightarrow> headers)"

definition build :: "'h header_ops \<Rightarrow> u16 \<Rightarrow> 'h \<Rightarrow> bytes \<Rightarrow> str \<Rightarrow> 'h response res" where
  "build H status headers body cache =
     (let target = hm_remove H ''content-length'' headers in
      case hv_from_str H (dec (length body)) of
        None \<Rightarrow> Panic
      | Some value \<Rightarrow>
          Ok \<lparr>res_status = status,
              res_headers = insert_cache_header H cache (hm_insert H ''content-length'' value target),
              res_body = Full body\<rparr>)"

definition stream_response :: "'h header_ops \<Rightarrow> u16 \<Rightarrow> 'h \<Rightarrow> 'h upstream \<Rightarrow> str \<Rightarrow> 'h response" where
  "stream_response H status headers response cache =
     \<lparr>res_status = status, res_headers = insert_cache_header H cache headers,
      res_body = Streamed (up_body response)\<rparr>"

text \<open>\<open>StatusCode::from_u16\<close> accepts 100 to 999.\<close>

definition replay :: "'h header_ops \<Rightarrow> entry \<Rightarrow> 'h response res" where
  "replay H e =
     (let code = hdr_status (ent_header e);
          status = (if 100 \<le> code \<and> code \<le> 999 then code else 200) in
      build H status (entry_header_map H e) (ent_body e) ''HIT'')"

definition typed_response :: "'h header_ops \<Rightarrow> u16 \<Rightarrow> str \<Rightarrow> bytes \<Rightarrow> 'h response" where
  "typed_response H status content_type body =
     \<lparr>res_status = status, res_headers = hm_append H ''content-type'' (as_bytes content_type) (hm_new H),
      res_body = Full body\<rparr>"

definition text_response :: "'h header_ops \<Rightarrow> u16 \<Rightarrow> str \<Rightarrow> 'h response" where
  "text_response H status message = typed_response H status ''text/plain'' (as_bytes (message @ [NL]))"

definition bad_request :: "'h header_ops \<Rightarrow> str \<Rightarrow> 'h response" where
  "bad_request H message = text_response H 400 message"

definition bad_gateway :: "'h header_ops \<Rightarrow> str \<Rightarrow> 'h response" where
  "bad_gateway H message = text_response H 502 message"

section \<open>Requests\<close>

definition absolute_url :: "'u url_ops \<Rightarrow> 'h request \<Rightarrow> str option \<Rightarrow> str + 'u" where
  "absolute_url U req tunnel_authority =
     (case tunnel_authority of
        Some authority \<Rightarrow>
          (let path = (case req_path_and_query req of None \<Rightarrow> ''/'' | Some p \<Rightarrow> p) in
           case url_parse U (''https://'' @ authority @ path) of
             None \<Rightarrow> Inl ''invalid URL'' | Some url \<Rightarrow> Inr url)
      | None \<Rightarrow>
          (case url_parse U (req_uri req) of
             None \<Rightarrow> Inl ''unparsable request URI'' | Some url \<Rightarrow> Inr url))"

text \<open>\<open>started.elapsed()\<close> between two worlds.\<close>

definition elapsed :: "('w, 'h, 'z) web_scheme \<Rightarrow> 'w \<Rightarrow> 'w \<Rightarrow> u64" where
  "elapsed N w w' = word_of_nat (web_clock N w' - web_clock N w)"

definition forward ::
  "('u, 'h) crates \<Rightarrow> ('w, 'h, 'z) web_scheme \<Rightarrow> proxy \<Rightarrow> str \<Rightarrow> 'u \<Rightarrow> 'h \<Rightarrow> bytes \<Rightarrow> reject \<Rightarrow> 'w
     \<Rightarrow> 'h response res \<times> proxy \<times> 'w" where
  "forward L N p method url client_headers body reject w =
     (let H = lib_headers L; link = url_as_str (lib_url L) url in
      case web_request N (px_forwarder p) method link (sanitize H client_headers) body w of
        (Inl err, w') \<Rightarrow> (Err err, p, w')
      | (Inr response, w') \<Rightarrow>
          (Ok (stream_response H (up_status response) (sanitize H (up_headers response)) response ''PASS''),
           px_record (Pass (reject_as_str reject)) method link
             (case up_content_length response of None \<Rightarrow> 0 | Some n \<Rightarrow> n) (elapsed N w w') p, w'))"

text \<open>The decision on a response read in full, and what it stores.\<close>

definition store_response ::
  "('u, 'h) crates \<Rightarrow> ('w, 'h, 'z) web_scheme \<Rightarrow> proxy \<Rightarrow> str \<Rightarrow> 'u \<Rightarrow> u16 \<Rightarrow> 'h \<Rightarrow> bytes \<Rightarrow> 'w
     \<Rightarrow> outcome res \<times> proxy \<times> 'w" where
  "store_response L N p key url status headers body w =
     (case response_storable (px_policy p) (lib_url L) (lib_headers L) url status headers
         (word_of_nat (length body)) of
        Inr _ \<Rightarrow>
          let e = entry_new (lib_headers L) (lib_sha256 L) (lib_hex L) (word_of_nat (net_now N w))
                (url_as_str (lib_url L) url) status headers body in
          (case entry_encode (lib_to_vec L) e of
             Ok encoded \<Rightarrow>
               let (s, w) = store_put N key encoded (px_store p) w in
               (Ok Stored, p\<lparr>px_store := s\<rparr>, w)
           | Err err \<Rightarrow> (Ok (Miss ''encode failed''), p, w)
           | Panic \<Rightarrow> (Panic, p, w))
      | Inl reject \<Rightarrow> (Ok (Miss (reject_as_str reject)), p, w))"

text \<open>The headers sent upstream for a cacheable request; \<open>None\<close> where the value does not parse.\<close>

definition upstream_headers :: "'h header_ops \<Rightarrow> 'h \<Rightarrow> 'h option" where
  "upstream_headers H client_headers =
     map_option
       (\<lambda>identity. hm_insert H ''accept-encoding'' identity
          (hm_remove H ''accept-encoding'' (sanitize H client_headers)))
       (hv_from_str H ''identity'')"

definition fetch_and_store ::
  "('u, 'h) crates \<Rightarrow> ('w, 'h, 'z) web_scheme \<Rightarrow> proxy \<Rightarrow> str \<Rightarrow> 'u \<Rightarrow> 'h \<Rightarrow> str \<Rightarrow> 'w
     \<Rightarrow> 'h response res \<times> proxy \<times> 'w" where
  "fetch_and_store L N p method url client_headers key w =
     (let H = lib_headers L; link = url_as_str (lib_url L) url in
      case upstream_headers H client_headers of
        None \<Rightarrow> (Err ''failed to parse header value'', p, w)
      | Some sent \<Rightarrow>
          (case web_request N (px_fetcher p) method link sent [] w of
             (Inl err, w1) \<Rightarrow> (Err err, p, w1)
           | (Inr response, w1) \<Rightarrow>
               let status = up_status response; headers = sanitize H (up_headers response);
                   declared = (case up_content_length response of None \<Rightarrow> 0 | Some n \<Rightarrow> n) in
               if declared > max_size (px_policy p)
               then (Ok (stream_response H status headers response ''MISS''),
                     px_record (Miss (reject_as_str TooLarge)) method link declared (elapsed N w w1) p, w1)
               else (case up_body response of
                 Inl err \<Rightarrow> (Err err, p, w1)
               | Inr body \<Rightarrow>
                   (case store_response L N p key url status headers body w1 of
                      (Ok outcome, p, w2) \<Rightarrow>
                        (build H status headers body ''MISS'',
                         px_record outcome method link (word_of_nat (length body)) (elapsed N w w1) p, w2)
                    | (Err err, p, w2) \<Rightarrow> (Err err, p, w2)
                    | (Panic, p, w2) \<Rightarrow> (Panic, p, w2)))))"

definition handle ::
  "('u, 'h) crates \<Rightarrow> ('w, 'h, 'z) web_scheme \<Rightarrow> proxy \<Rightarrow> 'h request \<Rightarrow> 'u \<Rightarrow> 'w
     \<Rightarrow> 'h response res \<times> proxy \<times> 'w" where
  "handle L N p req url w =
     (case req_body req of
        Inl err \<Rightarrow> (Err err, p, w)
      | Inr body \<Rightarrow>
          (case request_eligible (px_policy p) (lib_url L) (lib_headers L) (req_method req) url
              (req_headers req) of
             Inl reject \<Rightarrow> forward L N p (req_method req) url (req_headers req) body reject w
           | Inr _ \<Rightarrow>
               let key = policy_key (px_policy p) (lib_url L) (lib_sha256 L) (lib_hex L) url in
               (case store_get N key (px_store p) w of
                  (found, s, w) \<Rightarrow>
                    let p = p\<lparr>px_store := s\<rparr> in
                    case found of
                      None \<Rightarrow> fetch_and_store L N p (req_method req) url (req_headers req) key w
                    | Some raw \<Rightarrow>
                        (case entry_decode (lib_from_slice L) (lib_sha256 L) (lib_hex L) raw of
                           Ok entry \<Rightarrow>
                             (replay (lib_headers L) entry,
                              px_record Hit (req_method req) (url_as_str (lib_url L) url)
                                (word_of_nat (length (ent_body entry))) 0 p, w)
                         | Err err \<Rightarrow>
                             fetch_and_store L N p (req_method req) url (req_headers req) key w
                         | Panic \<Rightarrow> (Panic, p, w)))))"

section \<open>Entry points\<close>

definition control :: "('u, 'h) crates \<Rightarrow> proxy \<Rightarrow> 'h request \<Rightarrow> 'h response \<times> proxy" where
  "control L p req =
     (let H = lib_headers L; path = req_path req in
      if path = ''/__cicache/ping'' then (text_response H 200 ''ok'', p)
      else if path = ''/__cicache/stats''
      then (typed_response H 200 ''application/json''
              (as_bytes (lib_summary_json L (stats_summary (sto_stats (px_store p))))), p)
      else if path = ''/__cicache/shutdown''
      then (text_response H 200 ''shutting down'', p\<lparr>px_shutdown := True\<rparr>)
      else (text_response H 404 ''unknown control endpoint'', p))"

text \<open>
  A \<open>CONNECT\<close> is answered at once; the task it spawns either terminates TLS and dispatches what
  arrives with the authority it was made for, or records a tunnel and copies bytes.
\<close>

datatype connection = Intercept str u16 | Tunnel str u16

definition tunnel_authority :: "str \<Rightarrow> u16 \<Rightarrow> str" where
  "tunnel_authority host port = (if port = 443 then host else host @ '':'' @ dec (unat port))"

definition connect :: "('u, 'h) crates \<Rightarrow> proxy \<Rightarrow> 'h request \<Rightarrow> 'h response \<times> connection option" where
  "connect L p req =
     (case req_authority req of
        None \<Rightarrow> (bad_request (lib_headers L) ''CONNECT without authority'', None)
      | Some (host, port_u16) \<Rightarrow>
          let port = (case port_u16 of None \<Rightarrow> 443 | Some n \<Rightarrow> n);
              intercept = List.member (px_mitm_ports p) port in
          (\<lparr>res_status = 200, res_headers = hm_new (lib_headers L), res_body = Full []\<rparr>,
           Some (if intercept then Intercept host port else Tunnel host port)))"

fun connection_opened :: "connection \<Rightarrow> proxy \<Rightarrow> proxy" where
  "connection_opened (Intercept host port) p = p"
| "connection_opened (Tunnel host port) p =
     px_record (Pass ''tunnelled port'') ''CONNECT'' (host @ '':'' @ dec (unat port)) 0 0 p"

definition dispatch ::
  "('u, 'h) crates \<Rightarrow> ('w, 'h, 'z) web_scheme \<Rightarrow> proxy \<Rightarrow> 'h request \<Rightarrow> str option \<Rightarrow> 'w
     \<Rightarrow> 'h response res \<times> proxy \<times> 'w" where
  "dispatch L N p req tunnel w =
     (if tunnel = None \<and> req_method req = ''CONNECT''
      then (Ok (fst (connect L p req)), p, w)
      else if tunnel = None \<and> req_authority req = None
      then (case control L p req of (response, p) \<Rightarrow> (Ok response, p, w))
      else case absolute_url (lib_url L) req tunnel of
        Inl err \<Rightarrow> (Ok (bad_request (lib_headers L) err), p, w)
      | Inr url \<Rightarrow>
          (case handle L N p req url w of
             (Ok response, p, w) \<Rightarrow> (Ok response, p, w)
           | (Err message, p, w) \<Rightarrow>
               (Ok (bad_gateway (lib_headers L) message),
                px_record (Error message) ''GET'' (url_as_str (lib_url L) url) 0 0 p, w)
           | (Panic, p, w) \<Rightarrow> (Panic, p, w)))"

section \<open>Headers\<close>

lemma values_sanitize_fold:
  assumes "header_laws H"
  shows "hm_values H (foldl (\<lambda>out (name, value).
         if List.member PROXY_HOP_BY_HOP name \<or> name = ''host'' then out
         else hm_append H name value out) m ps) n
    = hm_values H m n @ (if n \<in> set PROXY_HOP_BY_HOP \<or> n = ''host'' then []
        else map snd (filter (\<lambda>p. fst p = n) ps))"
  by (induction ps arbitrary: m) (auto simp: hm_values_append [OF assms])

lemma values_sanitize:
  assumes "header_laws H"
  shows "hm_values H (sanitize H headers) n
    = (if n \<in> set PROXY_HOP_BY_HOP \<or> n = ''host'' then [] else hm_values H headers n)"
  unfolding sanitize_def values_sanitize_fold [OF assms] hm_values_new [OF assms]
  by (simp add: hm_values_def)

text \<open>The three tags and the decimal numbers are header values, kept as their bytes.\<close>

definition tag_law :: "'h header_ops \<Rightarrow> bool" where
  "tag_law H \<longleftrightarrow> (\<forall>s. (\<forall>c \<in> set s. 32 \<le> (of_char c :: nat) \<and> of_char c < (127 :: nat))
     \<longrightarrow> hv_from_str H s = Some (as_bytes s))"

lemma tag_values:
  assumes "tag_law H"
  shows "hv_from_str H ''HIT'' = Some (as_bytes ''HIT'')"
    "hv_from_str H ''MISS'' = Some (as_bytes ''MISS'')"
    "hv_from_str H ''PASS'' = Some (as_bytes ''PASS'')"
    "hv_from_str H ''identity'' = Some (as_bytes ''identity'')"
    "hv_from_str H (dec n) = Some (as_bytes (dec n))"
proof -
  have "c \<in> set (dec n) \<Longrightarrow> 32 \<le> (of_char c :: nat) \<and> of_char c < (127 :: nat)" for c
    using dec_code [of c n] by simp
  then show "hv_from_str H (dec n) = Some (as_bytes (dec n))"
    using assms by (auto simp: tag_law_def)
qed (use assms in \<open>simp_all add: tag_law_def\<close>)

lemma build_Ok:
  assumes "tag_law H" "tag \<in> {''HIT'', ''MISS'', ''PASS''}"
  shows "build H status headers b tag = Ok \<lparr>res_status = status,
    res_headers = hm_insert H ''x-cicache'' (as_bytes tag)
      (hm_insert H ''content-length'' (as_bytes (dec (length b))) (hm_remove H ''content-length'' headers)),
    res_body = Full b\<rparr>"
  using assms(2) tag_values [OF assms(1)] by (auto simp: build_def insert_cache_header_def)

lemma insert_tag:
  assumes "tag_law H" "tag \<in> {''HIT'', ''MISS'', ''PASS''}"
  shows "insert_cache_header H tag headers = hm_insert H ''x-cicache'' (as_bytes tag) headers"
  using assms(2) tag_values [OF assms(1)] by (auto simp: insert_cache_header_def)

section \<open>What a request does to the store\<close>

lemma px_record_simps [simp]:
  "px_policy (px_record out m u b t p) = px_policy p"
  "px_store (px_record out m u b t p) = (px_store p)\<lparr>sto_stats :=
     stats_record out m u b t (sto_stats (px_store p))\<rparr>"
  by (simp_all add: px_record_def)

text \<open>The upstream clients leave the files alone.\<close>

definition web_laws :: "('w, 'h, 'z) web_scheme \<Rightarrow> bool" where
  "web_laws N \<longleftrightarrow> disk_laws N \<and> disk_writes N
     \<and> (\<forall>red m u h b w q. sys_read N q (snd (web_request N red m u h b w)) = sys_read N q w)"

lemma web_laws_disk: "web_laws N \<Longrightarrow> disk_laws N" "web_laws N \<Longrightarrow> disk_writes N"
  by (simp_all add: web_laws_def)

lemma web_keeps_disk:
  "web_laws N \<Longrightarrow> web_request N red m u h b w = (r, w') \<Longrightarrow> sys_read N q w' = sys_read N q w"
  unfolding web_laws_def by (metis snd_conv)

abbreviation stored_in ::
  "('w, 'h, 'z) web_scheme \<Rightarrow> str \<Rightarrow> bytes \<Rightarrow> proxy \<Rightarrow> 'w \<Rightarrow> bool" where
  "stored_in N k b p w \<equiv> store_cache.holds k b (N, px_store p, w)"

lemma holds_stats [simp]:
  "store_cache.holds k b (N, s\<lparr>sto_stats := st\<rparr>, w) = store_cache.holds k b (N, s, w)"
  by (simp add: store_cache.holds_def cache_defs store_path_def)

lemma stored_in_store:
  "stored_in N k b (p\<lparr>px_store := s\<rparr>) w \<longleftrightarrow> store_cache.holds k b (N, s, w)"
  by simp

lemma stored_in_get:
  assumes "stored_in N k b p w" "store_get N j (px_store p) w = (r, s, w')"
    and "\<not> starts_with k ''/''" "\<not> starts_with j ''/''"
  shows "store_cache.holds k b (N, s, w')"
  using store_cache.holds_op [of k b "(N, px_store p, w)" "Lookup j"] assms by (simp add: cache_defs)

lemma stored_in_put:
  assumes "stored_in N k b p w" "store_put N j c (px_store p) w = (s, w')"
    and "\<not> starts_with k ''/''" "\<not> starts_with j ''/''"
  shows "store_cache.holds k b (N, s, w')"
  using store_cache.holds_op [of k b "(N, px_store p, w)" "Insert j c"] assms by (simp add: cache_defs)

lemma stored_in_web:
  "stored_in N k b p w \<Longrightarrow> web_laws N \<Longrightarrow> web_request N red m u h c w = (r, w')
     \<Longrightarrow> stored_in N k b p w'"
  by (auto simp: store_cache.holds_def cache_defs web_keeps_disk)

text \<open>What is stored stays stored through every handler; the policy never changes.\<close>

definition px_same :: "proxy \<Rightarrow> proxy \<Rightarrow> bool" where
  "px_same p p' \<longleftrightarrow> px_policy p' = px_policy p
     \<and> px_store p' = (px_store p)\<lparr>sto_stats := sto_stats (px_store p')\<rparr>"

lemma px_same_refl [simp]: "px_same p p"
  by (simp add: px_same_def)

lemma px_same_record [simp]: "px_same p (px_record out m u b t p') = px_same p p'"
  by (auto simp: px_same_def) (metis store.surjective store.update_convs(3))+

lemma px_same_stored: "px_same p p' \<Longrightarrow> stored_in N k b p' w = stored_in N k b p w"
  unfolding px_same_def store_cache.holds_def cache_defs store_path_def
  by (metis (no_types, lifting) fst_conv snd_conv case_prod_conv store.select_convs store.surjective
      store.update_convs(3))

lemma forward_cases:
  assumes "forward L N p m url h b reject w = (r, p', w')"
  shows "(\<exists>err. web_request N (px_forwarder p) m (url_as_str (lib_url L) url)
        (sanitize (lib_headers L) h) b w = (Inl err, w') \<and> r = Err err \<and> p' = p)
    \<or> (\<exists>up. web_request N (px_forwarder p) m (url_as_str (lib_url L) url)
        (sanitize (lib_headers L) h) b w = (Inr up, w')
      \<and> r = Ok (stream_response (lib_headers L) (up_status up)
          (sanitize (lib_headers L) (up_headers up)) up ''PASS'')
      \<and> (\<exists>n t. p' = px_record (Pass (reject_as_str reject)) m (url_as_str (lib_url L) url) n t p))"
proof -
  obtain x w1 where web: "web_request N (px_forwarder p) m (url_as_str (lib_url L) url)
      (sanitize (lib_headers L) h) b w = (x, w1)" by fastforce
  with assms show ?thesis by (cases x) (auto simp: forward_def Let_def)
qed

definition new_entry :: "('u, 'h) crates \<Rightarrow> ('w, 'h, 'z) web_scheme \<Rightarrow> 'u \<Rightarrow> u16 \<Rightarrow> 'h \<Rightarrow> bytes \<Rightarrow> 'w \<Rightarrow> entry" where
  "new_entry L N url status headers b w = entry_new (lib_headers L) (lib_sha256 L) (lib_hex L)
     (word_of_nat (net_now N w)) (url_as_str (lib_url L) url) status headers b"

lemma store_response_cases:
  assumes "store_response L N p key url status headers b w = (r, p', w')"
  shows "(p' = p \<and> w' = w \<and> r \<noteq> Ok Stored \<and> (\<forall>err. r \<noteq> Err err))
    \<or> (\<exists>encoded s. response_storable (px_policy p) (lib_url L) (lib_headers L) url status headers
          (word_of_nat (length b)) = Inr ()
        \<and> entry_encode (lib_to_vec L) (new_entry L N url status headers b w) = Ok encoded
        \<and> store_put N key encoded (px_store p) w = (s, w') \<and> p' = p\<lparr>px_store := s\<rparr> \<and> r = Ok Stored)"
proof (cases "response_storable (px_policy p) (lib_url L) (lib_headers L) url status headers
    (word_of_nat (length b))")
  case (Inl reject)
  with assms show ?thesis by (auto simp: store_response_def)
next
  case (Inr u)
  then have eligible: "response_storable (px_policy p) (lib_url L) (lib_headers L) url status headers
    (word_of_nat (length b)) = Inr ()" by simp
  show ?thesis
  proof (cases "entry_encode (lib_to_vec L) (new_entry L N url status headers b w)")
    case (Ok encoded)
    obtain s w2 where "store_put N key encoded (px_store p) w = (s, w2)" by fastforce
    with assms eligible Ok show ?thesis by (simp add: store_response_def Let_def new_entry_def)
  qed (use assms eligible in \<open>auto simp: store_response_def Let_def new_entry_def\<close>)
qed

text \<open>
  The outcomes of \<open>fetch_and_store\<close> after the upstream's answer: nothing but statistics changes, or
  the response was read, storable and stored under the key.
\<close>

lemma fetch_cases:
  assumes laws: "tag_law (lib_headers L)"
    and fetch: "fetch_and_store L N p m url h key w = (r, p', w')"
  shows "\<exists>x w1 sent. upstream_headers (lib_headers L) h = Some sent
    \<and> web_request N (px_fetcher p) m (url_as_str (lib_url L) url) sent [] w = (x, w1) \<and>
    (px_same p p' \<and> w' = w1
       \<and> (\<forall>resp. r = Ok resp \<longrightarrow> (\<exists>up. x = Inr up \<and>
            (resp = stream_response (lib_headers L) (up_status up) (sanitize (lib_headers L) (up_headers up)) up ''MISS''
             \<or> (\<exists>b. up_body up = Inr b \<and>
                 r = build (lib_headers L) (up_status up) (sanitize (lib_headers L) (up_headers up)) b ''MISS''))))
     \<or> (\<exists>up b encoded s st. x = Inr up \<and> up_body up = Inr b
        \<and> response_storable (px_policy p) (lib_url L) (lib_headers L) url (up_status up)
            (sanitize (lib_headers L) (up_headers up)) (word_of_nat (length b)) = Inr ()
        \<and> entry_encode (lib_to_vec L) (new_entry L N url (up_status up)
            (sanitize (lib_headers L) (up_headers up)) b w1) = Ok encoded
        \<and> store_put N key encoded (px_store p) w1 = (s, w')
        \<and> p' = p\<lparr>px_store := s\<lparr>sto_stats := st\<rparr>\<rparr>
        \<and> r = build (lib_headers L) (up_status up) (sanitize (lib_headers L) (up_headers up)) b ''MISS''))"
proof -
  obtain sent where sent: "upstream_headers (lib_headers L) h = Some sent"
    using tag_values(4) [OF laws] by (simp add: upstream_headers_def)
  obtain x w1 where web: "web_request N (px_fetcher p) m (url_as_str (lib_url L) url) sent [] w = (x, w1)"
    by fastforce
  show ?thesis
  proof (cases x)
    case (Inl err)
    with fetch sent web show ?thesis by (auto simp: fetch_and_store_def Let_def)
  next
    case (Inr up)
    let ?headers = "sanitize (lib_headers L) (up_headers up)"
    show ?thesis
    proof (cases "(case up_content_length up of None \<Rightarrow> 0 | Some n \<Rightarrow> n) > max_size (px_policy p)
        \<or> (\<exists>err. up_body up = Inl err)")
      case True
      with fetch sent web Inr show ?thesis
        by (auto simp: fetch_and_store_def Let_def split: if_splits)
    next
      case False
      then obtain b where b: "up_body up = Inr b" by (cases "up_body up") auto
      obtain out p2 w2 where stored:
        "store_response L N p key url (up_status up) ?headers b w1 = (out, p2, w2)"
        by (metis prod_cases3)
      from fetch sent web Inr False b stored
      have result: "(r, p', w') = (case out of
          Ok outcome \<Rightarrow> (build (lib_headers L) (up_status up) ?headers b ''MISS'',
            px_record outcome m (url_as_str (lib_url L) url) (word_of_nat (length b)) (elapsed N w w1) p2, w2)
        | Err err \<Rightarrow> (Err err, p2, w2) | Panic \<Rightarrow> (Panic, p2, w2))"
        by (simp add: fetch_and_store_def Let_def split: res.splits)
      from store_response_cases [OF stored] show ?thesis
      proof (elim disjE conjE exE)
        assume "p2 = p" "w2 = w1" "out \<noteq> Ok Stored"
        with result sent web Inr b show ?thesis by (cases out) auto
      next
        fix encoded s
        assume "response_storable (px_policy p) (lib_url L) (lib_headers L) url (up_status up) ?headers
            (word_of_nat (length b)) = Inr ()"
          "entry_encode (lib_to_vec L) (new_entry L N url (up_status up) ?headers b w1) = Ok encoded"
          "store_put N key encoded (px_store p) w1 = (s, w2)" "p2 = p\<lparr>px_store := s\<rparr>" "out = Ok Stored"
        with result sent web Inr b show ?thesis by (auto simp: px_record_def)
      qed
    qed
  qed
qed

lemma upstream_keeps:
  assumes "tag_law (lib_headers L)" "web_laws N"
    and "fetch_and_store L N p m url h key w = (r, p', w')"
    and "\<not> starts_with k ''/''" "\<not> starts_with key ''/''" "stored_in N k c p w"
  shows "stored_in N k c p' w' \<and> px_policy p' = px_policy p"
proof -
  from fetch_cases [OF assms(1,3)] obtain x w1 sent where
    web: "web_request N (px_fetcher p) m (url_as_str (lib_url L) url) sent [] w = (x, w1)"
    and rest: "px_same p p' \<and> w' = w1 \<or> (\<exists>encoded s st. store_put N key encoded (px_store p) w1 = (s, w')
      \<and> p' = p\<lparr>px_store := s\<lparr>sto_stats := st\<rparr>\<rparr>)"
    by (elim exE conjE disjE) metis+
  have kept: "stored_in N k c p w1" by (rule stored_in_web [OF assms(6,2) web])
  from rest show ?thesis
  proof (elim disjE conjE exE)
    assume "px_same p p'" "w' = w1"
    with kept show ?thesis by (auto simp: px_same_stored) (simp add: px_same_def)
  next
    fix encoded s st
    assume put: "store_put N key encoded (px_store p) w1 = (s, w')" and p': "p' = p\<lparr>px_store := s\<lparr>sto_stats := st\<rparr>\<rparr>"
    from stored_in_put [OF kept put assms(4,5)] p' show ?thesis
      by (simp add: store_cache.holds_def cache_defs store_path_def)
  qed
qed

lemma handle_eligible:
  assumes "req_body req = Inr b"
    and "request_eligible (px_policy p) (lib_url L) (lib_headers L) (req_method req) url (req_headers req) = Inr ()"
    and "store_get N (policy_key (px_policy p) (lib_url L) (lib_sha256 L) (lib_hex L) url) (px_store p) w
      = (found, s, w1)"
  shows "handle L N p req url w =
    (case found of
       None \<Rightarrow> fetch_and_store L N (p\<lparr>px_store := s\<rparr>) (req_method req) url (req_headers req)
         (policy_key (px_policy p) (lib_url L) (lib_sha256 L) (lib_hex L) url) w1
     | Some raw \<Rightarrow>
         (case entry_decode (lib_from_slice L) (lib_sha256 L) (lib_hex L) raw of
            Ok entry \<Rightarrow> (replay (lib_headers L) entry,
              px_record Hit (req_method req) (url_as_str (lib_url L) url)
                (word_of_nat (length (ent_body entry))) 0 (p\<lparr>px_store := s\<rparr>), w1)
          | Err err \<Rightarrow> fetch_and_store L N (p\<lparr>px_store := s\<rparr>) (req_method req) url (req_headers req)
              (policy_key (px_policy p) (lib_url L) (lib_sha256 L) (lib_hex L) url) w1
          | Panic \<Rightarrow> (Panic, p\<lparr>px_store := s\<rparr>, w1)))"
  using assms by (simp add: handle_def Let_def split: option.split)

lemma handle_keeps:
  assumes laws: "tag_law (lib_headers L)" "web_laws N" and run: "handle L N p req url w = (r, p', w')"
    and keys: "\<not> starts_with k ''/''" "\<not> starts_with (key_prefix (px_policy p)) ''/''"
    and stored: "stored_in N k c p w"
  shows "stored_in N k c p' w' \<and> px_policy p' = px_policy p"
proof (cases "req_body req")
  case (Inl err)
  with run stored show ?thesis by (simp add: handle_def)
next
  case (Inr b)
  note body = Inr
  let ?key = "policy_key (px_policy p) (lib_url L) (lib_sha256 L) (lib_hex L) url"
  show ?thesis
  proof (cases "request_eligible (px_policy p) (lib_url L) (lib_headers L) (req_method req) url (req_headers req)")
    case (Inl reject)
    with body run have "forward L N p (req_method req) url (req_headers req) b reject w = (r, p', w')"
      by (simp add: handle_def)
    from forward_cases [OF this] show ?thesis using stored_in_web [OF stored laws(2)] by auto
  next
    case (Inr u)
    obtain found s w1 where get: "store_get N ?key (px_store p) w = (found, s, w1)" by (metis prod_cases3)
    have key: "\<not> starts_with ?key ''/''"
      using keys(2) by (cases "key_prefix (px_policy p)") (auto simp: policy_key_def starts_with_def)
    let ?p = "p\<lparr>px_store := s\<rparr>"
    have kept: "stored_in N k c ?p w1"
      using stored_in_get [OF stored get keys(1) key] by simp
    have "(\<exists>m h. fetch_and_store L N ?p m url h ?key w1 = (r, p', w'))
        \<or> w' = w1 \<and> (p' = ?p \<or> (\<exists>n. p' = px_record Hit (req_method req) (url_as_str (lib_url L) url) n 0 ?p))"
      using run body Inr get by (auto simp: handle_eligible split: option.splits res.splits)
    then show ?thesis
      using upstream_keeps [OF laws _ keys(1) key kept] kept by auto
  qed
qed

text \<open>A history of requests, whatever becomes of each.\<close>

fun serve_all ::
  "('u, 'h) crates \<Rightarrow> ('w, 'h, 'z) web_scheme \<Rightarrow> proxy \<Rightarrow> ('h request \<times> str option) list \<Rightarrow> 'w
     \<Rightarrow> proxy \<times> 'w" where
  "serve_all L N p [] w = (p, w)"
| "serve_all L N p ((req, tunnel) # rs) w =
     (case dispatch L N p req tunnel w of (_, p, w) \<Rightarrow> serve_all L N p rs w)"

lemma control_keeps: "control L p req = (r, p') \<Longrightarrow> px_policy p' = px_policy p \<and> px_store p' = px_store p"
  by (auto simp: control_def Let_def split: if_splits)

lemma dispatch_cases:
  assumes "dispatch L N p req tunnel w = (r, p', w')"
  shows "px_policy p' = px_policy p \<and> px_store p' = px_store p \<and> w' = w
    \<or> (\<exists>url x p1. absolute_url (lib_url L) req tunnel = Inr url \<and> handle L N p req url w = (x, p1, w')
        \<and> (p' = p1 \<or> (\<exists>e. p' = px_record (Error e) ''GET'' (url_as_str (lib_url L) url) 0 0 p1)))"
proof (cases "tunnel = None \<and> (req_method req = ''CONNECT'' \<or> req_authority req = None)")
  case True
  with assms show ?thesis
    by (cases "control L p req") (auto simp: dispatch_def control_keeps split: if_splits)
next
  case False
  show ?thesis
  proof (cases "absolute_url (lib_url L) req tunnel")
    case (Inl err)
    with False assms show ?thesis by (auto simp: dispatch_def)
  next
    case (Inr url)
    obtain x p1 w1 where "handle L N p req url w = (x, p1, w1)" by (metis prod_cases3)
    with False Inr assms show ?thesis by (cases x) (auto simp: dispatch_def)
  qed
qed

lemma dispatch_keeps:
  assumes "tag_law (lib_headers L)" "web_laws N" "dispatch L N p req tunnel w = (r, p', w')"
    and "\<not> starts_with k ''/''" "\<not> starts_with (key_prefix (px_policy p)) ''/''" "stored_in N k c p w"
  shows "stored_in N k c p' w' \<and> px_policy p' = px_policy p"
  using dispatch_cases [OF assms(3)] handle_keeps [OF assms(1,2) _ assms(4-6)] assms(6)
  by fastforce

lemma serve_all_keeps:
  "serve_all L N p rs w = (p', w') \<Longrightarrow> tag_law (lib_headers L) \<Longrightarrow> web_laws N
    \<Longrightarrow> \<not> starts_with k ''/'' \<Longrightarrow> \<not> starts_with (key_prefix (px_policy p)) ''/''
    \<Longrightarrow> stored_in N k c p w \<Longrightarrow> stored_in N k c p' w' \<and> px_policy p' = px_policy p"
proof (induction L N p rs w rule: serve_all.induct)
  case (2 L N p req tunnel rs w)
  obtain r p1 w1 where step: "dispatch L N p req tunnel w = (r, p1, w1)" by (metis prod_cases3)
  from dispatch_keeps [OF 2(3,4) step 2(5-7)] 2 step show ?case by fastforce
qed simp

lemma policy_key_relative:
  "\<not> starts_with (key_prefix P) ''/'' \<Longrightarrow> \<not> starts_with (policy_key P U sha hex url) ''/''"
  by (cases "key_prefix P") (auto simp: policy_key_def starts_with_def)

lemma entry_new_digest:
  "hdr_sha256 (ent_header (entry_new H sha hex now url status headers b)) = hex (sha b)"
  "ent_body (entry_new H sha hex now url status headers b) = b"
  "hdr_status (ent_header (entry_new H sha hex now url status headers b)) = status"
  by (simp_all add: entry_new_def Let_def)

text \<open>A handler that put a new key put a response it had read, that was storable and got through.\<close>

lemma fetch_stored:
  fixes L :: "('u, 'h) crates"
  assumes laws: "tag_law (lib_headers L)" "web_laws N"
    and fetch: "fetch_and_store L N p m url h key w = (r, p', w')"
    and new: "k \<in> sto_queued (px_store p')" "k \<notin> sto_queued (px_store p)"
  shows "k = key \<and> px_policy p' = px_policy p \<and> (\<exists>(up :: 'h upstream) b w1 encoded. up_body up = Inr b
    \<and> response_storable (px_policy p) (lib_url L) (lib_headers L) url (up_status up)
        (sanitize (lib_headers L) (up_headers up)) (word_of_nat (length b)) = Inr ()
    \<and> entry_encode (lib_to_vec L) (new_entry L N url (up_status up)
        (sanitize (lib_headers L) (up_headers up)) b w1) = Ok encoded
    \<and> r = build (lib_headers L) (up_status up) (sanitize (lib_headers L) (up_headers up)) b ''MISS''
    \<and> stored_in N key encoded p' w')"
proof -
  from fetch_cases [OF laws(1) fetch] show ?thesis
  proof (elim exE disjE conjE, goal_cases)
    case (1 x w1 sent)
    then have "sto_queued (px_store p') = sto_queued (px_store p)"
      unfolding px_same_def by (metis store.select_convs(5) store.surjective store.update_convs(3))
    with new show ?case by simp
  next
    case (2 x w1 sent up b encoded s st)
    note put = \<open>store_put N key encoded (px_store p) w1 = (s, w')\<close>
      and p' = \<open>p' = p\<lparr>px_store := s\<lparr>sto_stats := st\<rparr>\<rparr>\<close>
    from new p' store_put_frame [OF put] have key: "k = key" by auto
    with new have "cache_fresh key (N, px_store p, w1)" by (simp add: cache_fresh_def)
    from store_cache.holds_put [OF _ this, of encoded] put laws(2)
    have "store_cache.holds key encoded (N, s, w')"
      by (simp add: cache_put_def cache_good_def web_laws_def)
    with 2 key have "k = key \<and> px_policy p' = px_policy p \<and> up_body up = Inr b
      \<and> stored_in N key encoded p' w'" by simp
    with 2 show ?case by blast
  qed
qed

lemma handle_stored:
  fixes L :: "('u, 'h) crates"
  assumes laws: "tag_law (lib_headers L)" "web_laws N"
    and run: "handle L N p req url w = (r, p', w')"
    and new: "k \<in> sto_queued (px_store p')" "k \<notin> sto_queued (px_store p)"
  shows "request_eligible (px_policy p) (lib_url L) (lib_headers L) (req_method req) url (req_headers req) = Inr ()
    \<and> k = policy_key (px_policy p) (lib_url L) (lib_sha256 L) (lib_hex L) url
    \<and> px_policy p' = px_policy p
    \<and> (\<exists>(up :: 'h upstream) b w1 encoded. up_body up = Inr b
      \<and> response_storable (px_policy p) (lib_url L) (lib_headers L) url (up_status up)
          (sanitize (lib_headers L) (up_headers up)) (word_of_nat (length b)) = Inr ()
      \<and> entry_encode (lib_to_vec L) (new_entry L N url (up_status up)
          (sanitize (lib_headers L) (up_headers up)) b w1) = Ok encoded
      \<and> r = build (lib_headers L) (up_status up) (sanitize (lib_headers L) (up_headers up)) b ''MISS''
      \<and> stored_in N k encoded p' w')"
proof (cases "req_body req")
  case (Inl err)
  with run new show ?thesis by (simp add: handle_def)
next
  case (Inr body)
  let ?key = "policy_key (px_policy p) (lib_url L) (lib_sha256 L) (lib_hex L) url"
  show ?thesis
  proof (cases "request_eligible (px_policy p) (lib_url L) (lib_headers L) (req_method req) url (req_headers req)")
    case (Inl reject)
    with Inr run have "forward L N p (req_method req) url (req_headers req) body reject w = (r, p', w')"
      by (simp add: handle_def)
    from forward_cases [OF this] new show ?thesis by auto
  next
    case eligible: (Inr u)
    obtain found s w1 where get: "store_get N ?key (px_store p) w = (found, s, w1)" by (metis prod_cases3)
    from store_get_frame [OF get] new(2) have old: "k \<notin> sto_queued (px_store (p\<lparr>px_store := s\<rparr>))" by simp
    have "fetch_and_store L N (p\<lparr>px_store := s\<rparr>) (req_method req) url (req_headers req) ?key w1 = (r, p', w')"
      using run Inr eligible get new(1) old by (auto simp: handle_eligible split: option.splits res.splits)
    from fetch_stored [OF laws this new(1) old] eligible show ?thesis by auto
  qed
qed

section \<open>Counting\<close>

definition classified :: "stats \<Rightarrow> u64" where
  "classified st = st_hits st + st_misses st + st_passthrough st + st_errors st"

lemma stats_record_counts:
  "st_requests (stats_record out m u b t st) = st_requests st + 1"
  "classified (stats_record out m u b t st) = classified st + 1"
  by (cases out; simp add: stats_record_def classified_def Let_def split: option.split)+

lemma store_response_stats:
  "store_response L N p key url status headers b w = (r, p', w')
     \<Longrightarrow> sto_stats (px_store p') = sto_stats (px_store p)"
  using store_response_cases [of L N p key url status headers b w r p' w']
  by (auto dest: store_put_stats)

definition counted :: "'a res \<Rightarrow> proxy \<Rightarrow> proxy \<Rightarrow> bool" where
  "counted r p p' \<longleftrightarrow> (case r of
     Ok _ \<Rightarrow> st_requests (sto_stats (px_store p')) = st_requests (sto_stats (px_store p)) + 1
       \<and> classified (sto_stats (px_store p')) = classified (sto_stats (px_store p)) + 1
   | Err _ \<Rightarrow> sto_stats (px_store p') = sto_stats (px_store p)
   | Panic \<Rightarrow> True)"

lemma counted_record: "sto_stats (px_store q) = sto_stats (px_store p)
    \<Longrightarrow> counted (Ok x) p (px_record out m u b t q)"
  by (simp add: counted_def stats_record_counts)

lemma fetch_counted:
  assumes laws: "tag_law (lib_headers L)" and fetch: "fetch_and_store L N p m url h key w = (r, p', w')"
  shows "counted r p p'"
proof -
  let ?link = "url_as_str (lib_url L) url"
  obtain sent where sent: "upstream_headers (lib_headers L) h = Some sent"
    using tag_values(4) [OF laws] by (simp add: upstream_headers_def)
  obtain x w1 where web: "web_request N (px_fetcher p) m ?link sent [] w = (x, w1)" by fastforce
  show ?thesis
  proof (cases x)
    case (Inl err)
    with fetch sent web show ?thesis by (auto simp: fetch_and_store_def Let_def counted_def)
  next
    case (Inr up)
    show ?thesis
    proof (cases "(case up_content_length up of None \<Rightarrow> 0 | Some n \<Rightarrow> n) > max_size (px_policy p)
        \<or> (\<exists>err. up_body up = Inl err)")
      case True
      with fetch sent web Inr show ?thesis
        by (auto simp: fetch_and_store_def Let_def counted_def stats_record_counts split: if_splits)
    next
      case False
      then obtain b where b: "up_body up = Inr b" by (cases "up_body up") auto
      obtain out p2 w2 where stored: "store_response L N p key url (up_status up)
          (sanitize (lib_headers L) (up_headers up)) b w1 = (out, p2, w2)"
        by (metis prod_cases3)
      note same = store_response_stats [OF stored]
      from fetch sent web Inr False b stored same
      show ?thesis
        by (cases out) (auto simp: fetch_and_store_def Let_def build_Ok [OF laws]
            counted_def stats_record_counts)
    qed
  qed
qed

lemma handle_counted:
  assumes "tag_law (lib_headers L)" "handle L N p req url w = (r, p', w')"
  shows "counted r p p'"
proof (cases "req_body req")
  case (Inl err)
  with assms(2) show ?thesis by (auto simp: handle_def counted_def)
next
  case (Inr body)
  let ?key = "policy_key (px_policy p) (lib_url L) (lib_sha256 L) (lib_hex L) url"
  show ?thesis
  proof (cases "request_eligible (px_policy p) (lib_url L) (lib_headers L) (req_method req) url (req_headers req)")
    case (Inl reject)
    with Inr assms(2) have "forward L N p (req_method req) url (req_headers req) body reject w = (r, p', w')"
      by (simp add: handle_def)
    from forward_cases [OF this] show ?thesis by (auto simp: counted_def stats_record_counts)
  next
    case eligible: (Inr u)
    obtain found s w1 where get: "store_get N ?key (px_store p) w = (found, s, w1)" by (metis prod_cases3)
    have same: "sto_stats (px_store (p\<lparr>px_store := s\<rparr>)) = sto_stats (px_store p)"
      using store_get_frame [OF get] by simp
    have "counted r (p\<lparr>px_store := s\<rparr>) p'" if "fetch_and_store L N (p\<lparr>px_store := s\<rparr>)
        (req_method req) url (req_headers req) ?key w1 = (r, p', w')"
      using fetch_counted [OF assms(1) that] .
    moreover have "replay (lib_headers L) e \<noteq> Err x" for e x
      by (simp add: replay_def Let_def build_Ok [OF assms(1)])
    ultimately show ?thesis
      using assms(2) Inr eligible get same
      by (auto simp: handle_eligible counted_def stats_record_counts split: option.splits res.splits)
  qed
qed

section \<open>Properties\<close>

text \<open>C1. Once a response has been stored, every later request for its URL that may use the cache is
  answered from the cache, without contacting the upstream and whatever other requests were served
  in between: same status, same body, same headers (those that read as text), tagged as a hit.\<close>

theorem stored_response_replayed:
  fixes L :: "('u, 'h) crates"
  assumes "web_laws N" "tag_law (lib_headers L)"
    and "header_laws (lib_headers L)" "header_text_laws (lib_headers L)"
    and "json_law (lib_to_vec L) (lib_from_slice L)"
    and "\<forall>h b. lib_to_vec L h = Ok b \<longrightarrow> length b < 2 ^ 32"
    and "\<not> starts_with (key_prefix (px_policy p)) ''/''"
    and "handle L N p req url w = (Ok r, p1, w1)"
    and "k = policy_key (px_policy p) (lib_url L) (lib_sha256 L) (lib_hex L) url"
    and "k \<notin> sto_queued (px_store p)" "k \<in> sto_queued (px_store p1)"
    and "serve_all L N p1 others w1 = (p2, w2)"
    and "req_body req2 = Inr b2"
    and "request_eligible (px_policy p) (lib_url L) (lib_headers L) (req_method req2) url (req_headers req2) = Inr ()"
  shows "\<exists>r2 b. handle L N p2 req2 url w2 = (Ok r2, px_record Hit (req_method req2)
        (url_as_str (lib_url L) url) (word_of_nat (length b)) 0 p2, w2)
    \<and> res_body r = Full b \<and> res_body r2 = Full b \<and> res_status r2 = res_status r
    \<and> hm_values (lib_headers L) (res_headers r2) ''x-cicache'' = [as_bytes ''HIT'']
    \<and> hm_values (lib_headers L) (res_headers r2) ''content-length''
        = hm_values (lib_headers L) (res_headers r) ''content-length''
    \<and> (\<forall>n. n \<noteq> ''x-cicache'' \<and> n \<noteq> ''content-length'' \<longrightarrow>
        hm_values (lib_headers L) (res_headers r2) n
        = filter (\<lambda>v. hv_to_str (lib_headers L) v \<noteq> None) (hm_values (lib_headers L) (res_headers r) n))"
proof -
  let ?H = "lib_headers L"
  from handle_stored [OF assms(2,1,8,11,10)] obtain up :: "'h upstream" and b wx encoded where
    policy: "px_policy p1 = px_policy p"
    and storable: "response_storable (px_policy p) (lib_url L) ?H url (up_status up)
        (sanitize ?H (up_headers up)) (word_of_nat (length b)) = Inr ()"
    and encoded: "entry_encode (lib_to_vec L) (new_entry L N url (up_status up)
        (sanitize ?H (up_headers up)) b wx) = Ok encoded"
    and r: "Ok r = build ?H (up_status up) (sanitize ?H (up_headers up)) b ''MISS''"
    and stored: "stored_in N k encoded p1 w1"
    by blast
  let ?e = "new_entry L N url (up_status up) (sanitize ?H (up_headers up)) b wx"
  have status: "up_status up = 200" using storable by (auto simp: response_storable_def split: if_splits)
  have rel: "\<not> starts_with k ''/''" using assms(7,9) by (simp add: policy_key_relative)
  have prefix1: "\<not> starts_with (key_prefix (px_policy p1)) ''/''" using assms(7) policy by simp
  from serve_all_keeps [OF assms(12,2,1) rel prefix1 stored] policy
  have stored2: "stored_in N k encoded p2 w2" and policy2: "px_policy p2 = px_policy p" by simp_all
  then have get: "store_get N k (px_store p2) w2 = (Some encoded, px_store p2, w2)"
    by (simp add: store_cache.holds_def cache_defs store_get_local)
  from entry_encode_OkD [OF encoded] obtain h where h: "lib_to_vec L (ent_header ?e) = Ok h"
    and frame: "encoded = entry_frame h b" by (auto simp: new_entry_def entry_new_digest)
  have "lib_from_slice L h = Ok (ent_header ?e)" using assms(5) h by (simp add: json_law_def)
  moreover have "length h < 2 ^ 32" using assms(6) h by blast
  ultimately have decode: "entry_decode (lib_from_slice L) (lib_sha256 L) (lib_hex L) encoded = Ok ?e"
    by (simp add: frame entry_decode_frame) (simp add: new_entry_def entry_new_def Let_def)
  have "handle L N p2 req2 url w2 = (replay ?H ?e, px_record Hit (req_method req2)
      (url_as_str (lib_url L) url) (word_of_nat (length b)) 0 p2, w2)"
    using handle_eligible [OF assms(13), of p2 L url N w2 "Some encoded" "px_store p2" w2] assms(9,14)
      get decode policy2
    by (simp add: new_entry_def entry_new_digest)
  moreover have "\<exists>r2. replay ?H ?e = Ok r2 \<and> res_body r2 = Full b \<and> res_status r2 = 200
    \<and> res_headers r2 = hm_insert ?H ''x-cicache'' (as_bytes ''HIT'')
      (hm_insert ?H ''content-length'' (as_bytes (dec (length b)))
        (hm_remove ?H ''content-length'' (entry_header_map ?H ?e)))"
    unfolding replay_def Let_def
    by (subst build_Ok [OF assms(2)]) (simp_all add: new_entry_def entry_new_digest status)
  moreover have "HOP_BY_HOP = PROXY_HOP_BY_HOP" by (simp add: HOP_BY_HOP_def PROXY_HOP_BY_HOP_def)
  ultimately show ?thesis
    using r build_Ok [OF assms(2), of "''MISS''"] status
    by (auto simp: hm_values_insert [OF assms(3)] hm_values_remove [OF assms(3)] new_entry_def
        entry_headers_replayed [OF assms(3,4)] values_sanitize [OF assms(3)])
qed


text \<open>Whatever a request puts in the store is a response read in full for a request the policy
  lets use the cache, filed under that request's key, and the response is storable: status 200, no
  directive against it, size within bounds, and a signal that it will not change.\<close>

theorem only_storable_responses_stored:
  fixes L :: "('u, 'h) crates"
  assumes "tag_law (lib_headers L)" "web_laws N"
    and "handle L N p req url w = (r, p', w')"
    and "k \<in> sto_queued (px_store p') - sto_queued (px_store p)"
  shows "request_eligible (px_policy p) (lib_url L) (lib_headers L) (req_method req) url (req_headers req) = Inr ()
    \<and> k = policy_key (px_policy p) (lib_url L) (lib_sha256 L) (lib_hex L) url
    \<and> (\<exists>(up :: 'h upstream) b. up_body up = Inr b \<and> up_status up = 200
      \<and> response_storable (px_policy p) (lib_url L) (lib_headers L) url 200
          (sanitize (lib_headers L) (up_headers up)) (word_of_nat (length b)) = Inr ()
      \<and> r = build (lib_headers L) 200 (sanitize (lib_headers L) (up_headers up)) b ''MISS'')"
proof -
  have "up_status up = 200" if "response_storable P U H url (up_status up) hs n = Inr ()"
    for up :: "'h upstream" and P and U :: "'u url_ops" and H :: "'h header_ops" and hs n
    using that by (auto simp: response_storable_def split: if_splits)
  with handle_stored [OF assms(1-3), of k] assms(4) show ?thesis by fastforce
qed

text \<open>A response tagged as a hit carries a body whose digest is the one recorded with it, taken
  from a well-formed entry under the request's key; a corrupted entry is never served.\<close>

theorem hits_are_authentic:
  fixes L :: "('u, 'h) crates"
  assumes "tag_law (lib_headers L)" "header_laws (lib_headers L)"
    and "handle L N p req url w = (Ok r, p', w')"
    and "hm_values (lib_headers L) (res_headers r) ''x-cicache'' = [as_bytes ''HIT'']"
  shows "\<exists>raw s e. store_get N (policy_key (px_policy p) (lib_url L) (lib_sha256 L) (lib_hex L) url)
        (px_store p) w = (Some raw, s, w')
    \<and> entry_decode (lib_from_slice L) (lib_sha256 L) (lib_hex L) raw = Ok e
    \<and> res_body r = Full (ent_body e)
    \<and> lib_hex L (lib_sha256 L (ent_body e)) = hdr_sha256 (ent_header e)"
proof -
  let ?H = "lib_headers L" and ?key = "policy_key (px_policy p) (lib_url L) (lib_sha256 L) (lib_hex L) url"
  have tags: "as_bytes ''MISS'' \<noteq> as_bytes ''HIT''" "as_bytes ''PASS'' \<noteq> as_bytes ''HIT''"
    unfolding as_bytes_inject by simp_all
  have streamed: "hm_values ?H (res_headers (stream_response ?H st hs up tag)) ''x-cicache'' = [as_bytes tag]"
    if "tag \<in> {''HIT'', ''MISS'', ''PASS''}" for st hs tag and up :: "'h upstream"
    using insert_tag [OF assms(1) that] by (simp add: stream_response_def hm_values_insert [OF assms(2)])
  have built: "hm_values ?H (res_headers x) ''x-cicache'' = [as_bytes ''MISS'']"
    if "Ok x = build ?H st hs c ''MISS''" for x st hs c
    using that build_Ok [OF assms(1), of "''MISS''"] by (simp add: hm_values_insert [OF assms(2)])
  have fetched: False if "fetch_and_store L N q (req_method req) url (req_headers req) ?key v = (Ok r, p', w')" for q v
    using fetch_cases [OF assms(1) that] assms(4) streamed [of "''MISS''"] built tags by fastforce
  have digest: "lib_hex L (lib_sha256 L (ent_body e)) = hdr_sha256 (ent_header e)"
    if "entry_decode (lib_from_slice L) (lib_sha256 L) (lib_hex L) raw = Ok e" for raw e
    using that by (auto simp: entry_decode_def Let_def split: if_splits res.splits)
  obtain b where body: "req_body req = Inr b" using assms(3) by (auto simp: handle_def split: sum.splits)
  have eligible: "request_eligible (px_policy p) (lib_url L) ?H (req_method req) url (req_headers req) = Inr ()"
  proof (rule ccontr)
    assume "\<not> ?thesis"
    then obtain reject where
      "request_eligible (px_policy p) (lib_url L) ?H (req_method req) url (req_headers req) = Inl reject"
      by (cases "request_eligible (px_policy p) (lib_url L) ?H (req_method req) url (req_headers req)") auto
    with body assms(3) have "forward L N p (req_method req) url (req_headers req) b reject w = (Ok r, p', w')"
      by (simp add: handle_def)
    from forward_cases [OF this] show False using assms(4) streamed [of "''PASS''"] tags by auto
  qed
  obtain found s w1 where get: "store_get N ?key (px_store p) w = (found, s, w1)" by (metis prod_cases3)
  from assms(3) handle_eligible [OF body eligible get] fetched obtain raw e where
    hit: "found = Some raw" "entry_decode (lib_from_slice L) (lib_sha256 L) (lib_hex L) raw = Ok e"
      "replay ?H e = Ok r" "w' = w1"
    by (auto split: option.splits res.splits)
  from hit(3) build_Ok [OF assms(1), of "''HIT''"] have "res_body r = Full (ent_body e)"
    by (auto simp: replay_def Let_def)
  with get hit digest show ?thesis by blast
qed

text \<open>C23. Every proxied request that is answered is counted exactly once, and under exactly one of hit,
  miss, passed through or error; one that fails is answered with 502 and counted as an error.\<close>

theorem every_request_counted_once:
  assumes "tag_law (lib_headers L)" "absolute_url (lib_url L) req tunnel = Inr url"
    and "tunnel \<noteq> None \<or> req_method req \<noteq> ''CONNECT'' \<and> req_authority req \<noteq> None"
    and "dispatch L N p req tunnel w = (Ok resp, p', w')"
  shows "st_requests (sto_stats (px_store p')) = st_requests (sto_stats (px_store p)) + 1
    \<and> classified (sto_stats (px_store p')) = classified (sto_stats (px_store p)) + 1
    \<and> (\<forall>msg. fst (handle L N p req url w) = Err msg \<longrightarrow> res_status resp = 502
        \<and> st_errors (sto_stats (px_store p')) = st_errors (sto_stats (px_store p)) + 1)"
proof -
  obtain r p1 w1 where run: "handle L N p req url w = (r, p1, w1)" by (metis prod_cases3)
  from handle_counted [OF assms(1) run] have count: "counted r p p1" .
  show ?thesis
  proof (cases r)
    case (Err msg)
    with assms(2-4) run have "resp = bad_gateway (lib_headers L) msg"
      "p' = px_record (Error msg) ''GET'' (url_as_str (lib_url L) url) 0 0 p1"
      by (auto simp: dispatch_def)
    moreover have "st_errors (stats_record (Error msg) m u n t st) = st_errors st + 1" for m u n t st
      by (simp add: stats_record_def Let_def split: option.split)
    ultimately show ?thesis using count run Err
      by (simp add: counted_def stats_record_counts bad_gateway_def text_response_def typed_response_def)
  qed (use assms(2-4) run count in \<open>auto simp: dispatch_def counted_def\<close>)
qed

text \<open>Headers for one hop only, and the host, are dropped in both directions; every other header
  keeps its values in their order.\<close>

theorem sanitize_drops_hop_by_hop:
  assumes "header_laws H"
  shows "hm_values H (sanitize H headers) n
    = (if n \<in> {''connection'', ''keep-alive'', ''proxy-authenticate'', ''proxy-authorization'',
         ''proxy-connection'', ''te'', ''trailer'', ''transfer-encoding'', ''upgrade'', ''host''}
       then [] else hm_values H headers n)"
  using values_sanitize [OF assms] by (auto simp: PROXY_HOP_BY_HOP_def)

text \<open>Whether a tunnel is decrypted depends on its port alone: a host the policy always bypasses is
  intercepted like any other on an intercepted port, and only its requests, once decrypted, are
  refused the cache.\<close>

theorem bypassed_host_still_intercepted:
  assumes "is_bypassed (px_policy p) host" "req_authority req = Some (host, port)"
    and "(case port of None \<Rightarrow> 443 | Some n \<Rightarrow> n) \<in> set (px_mitm_ports p)"
    and "unwrap_or_default (url_host_str (lib_url L) url) = host"
  shows "snd (connect L p req) = Some (Intercept host (case port of None \<Rightarrow> 443 | Some n \<Rightarrow> n))
    \<and> request_eligible (px_policy p) (lib_url L) (lib_headers L) ''GET'' url headers = Inl BypassHost"
  using assms by (simp add: connect_def Let_def request_eligible_def)

section \<open>Witnesses\<close>

text \<open>One upstream that answers every request alike, on the reference files without a service.\<close>

definition demo_up :: "(str \<times> bytes) list upstream" where
  "demo_up = \<lparr>up_status = 200, up_headers = [(''etag'', [65]), (''te'', [66])], up_content_length = Some 2,
     up_body = Inr [1, 2]\<rparr>"

definition demo_web :: "(kv_world, (str \<times> bytes) list) web" where
  "demo_web = sys.extend kv_sys (web.fields (\<lambda>red m u h b w. (Inr demo_up, w)) (\<lambda>w. 5))"

lemma demo_web_simps [simp]:
  "net_post demo_web = net_post kv_net" "net_get demo_web = net_get kv_net"
  "net_put demo_web = net_put kv_net" "net_now demo_web = net_now kv_net"
  "sys_read demo_web p w = map_of (kv_files w) p"
  "sys_write demo_web p b w = (True, w\<lparr>kv_files := (p, b) # kv_files w\<rparr>)"
  "web_request demo_web red m u h b w = (Inr demo_up, w)" "web_clock demo_web w = 5"
  by (simp_all add: demo_web_def sys.defs web.defs flip: kv_sys_simps)

lemma demo_web_laws: "web_laws demo_web"
  using kv_disk(1) by (simp add: web_laws_def disk_laws_def disk_writes_def)

definition demo_url :: part_url where
  "demo_url = https_url ''h'' ''/a''"

definition demo_cached :: entry where
  "demo_cached = entry_new alist_headers id of_bytes 1700 (part_url_str demo_url) 200 [(''etag'', [65])] [1, 2]"

definition demo_crates :: "(part_url, (str \<times> bytes) list) crates" where
  "demo_crates =
     \<lparr>lib_url = part_urls [(''https://h/a'', demo_url)], lib_headers = alist_headers,
      lib_sha256 = id, lib_hex = of_bytes,
      lib_to_vec = (\<lambda>h. if h = ent_header demo_cached then Ok [9] else Err ''no codec''),
      lib_from_slice = (\<lambda>b. if b = [9] then Ok (ent_header demo_cached) else Err ''not JSON''),
      lib_summary_json = (\<lambda>s. ''summary'')\<rparr>"

lemma demo_crates_simps [simp]:
  "lib_url demo_crates = part_urls [(''https://h/a'', demo_url)]" "lib_headers demo_crates = alist_headers"
  "lib_sha256 demo_crates = id" "lib_hex demo_crates = of_bytes"
  by (simp_all add: demo_crates_def)

definition demo_proxy :: proxy where
  "demo_proxy =
     \<lparr>px_policy = \<lparr>min_size = 0, max_size = 100, min_max_age = 0, cache_all = True,
        cache_authorized = False, extra_bypass = [], key_prefix = ''p''\<rparr>,
      px_store = demo_store\<lparr>sto_gha := None\<rparr>, px_fetcher = NoRedirects, px_forwarder = NoRedirects,
      px_mitm_ports = [443], px_shutdown = False\<rparr>"

definition demo_request :: "str \<Rightarrow> (str \<times> bytes) list request" where
  "demo_request m = \<lparr>req_method = m, req_uri = ''https://h/a'', req_authority = Some (''h'', None),
     req_path = ''/a'', req_path_and_query = Some ''/a'', req_headers = [], req_body = Inr []\<rparr>"

lemma demo_tag_law: "tag_law alist_headers"
  by (simp add: tag_law_def alist_headers_def)

lemma demo_eligible:
  "request_eligible (px_policy demo_proxy) (lib_url demo_crates) (lib_headers demo_crates) ''GET'' demo_url [] = Inr ()"
  by (simp add: request_eligible_def demo_proxy_def demo_url_def https_url_def part_urls_def alist_headers_def
      is_bypassed_def ALWAYS_BYPASS_def host_matches_def trim_start_char_def trim_end_char_def
      unwrap_or_default_def is_signed_url_def)

lemma demo_sanitized: "sanitize alist_headers (up_headers demo_up) = [(''etag'', [65])]"
  by (simp add: sanitize_def demo_up_def alist_headers_def PROXY_HOP_BY_HOP_def)

lemma demo_storable:
  "response_storable (px_policy demo_proxy) (lib_url demo_crates) alist_headers demo_url 200 [(''etag'', [65])] 2 = Inr ()"
  by (simp add: response_storable_def demo_proxy_def cache_control_of_def alist_headers_def
      unwrap_or_default_def to_ascii_lowercase_def)

abbreviation demo_key :: str where
  "demo_key \<equiv> policy_key (px_policy demo_proxy) (lib_url demo_crates) (lib_sha256 demo_crates)
     (lib_hex demo_crates) demo_url"

lemma demo_new: "new_entry demo_crates demo_web demo_url 200 [(''etag'', [65])] [1, 2] kv_empty = demo_cached"
  by (simp add: new_entry_def demo_cached_def kv_net_def part_urls_def)

lemma demo_encoded: "entry_encode (lib_to_vec demo_crates) demo_cached = Ok (entry_frame [9] [1, 2])"
  by (simp add: entry_encode_Ok demo_crates_def) (simp add: demo_cached_def entry_new_def Let_def)

lemma demo_first:
  "\<exists>r p' w'. handle demo_crates demo_web demo_proxy (demo_request ''GET'') demo_url kv_empty = (Ok r, p', w')
     \<and> demo_key \<in> sto_queued (px_store p')
     \<and> sto_channel (px_store p') = [(demo_key, entry_frame [9] [1, 2])]"
proof -
  have miss: "store_get demo_web demo_key (px_store demo_proxy) kv_empty = (None, px_store demo_proxy, kv_empty)"
    by (simp add: store_get_def demo_proxy_def kv_empty_def)
  obtain s w' where put: "store_put demo_web demo_key (entry_frame [9] [1, 2]) (px_store demo_proxy) kv_empty = (s, w')"
    by fastforce
  from put demo_storable demo_new demo_encoded have stored: "store_response demo_crates demo_web demo_proxy demo_key
      demo_url 200 [(''etag'', [65])] [1, 2] kv_empty = (Ok Stored, demo_proxy\<lparr>px_store := s\<rparr>, w')"
    by (simp add: store_response_def new_entry_def Let_def)
  have "demo_key \<in> sto_queued s" using store_put_frame [OF put] by simp
  moreover have "sto_channel s = [(demo_key, entry_frame [9] [1, 2])]"
    using put by (auto simp: store_put_def demo_proxy_def demo_defs entry_frame_def Let_def split: if_splits)
  moreover have "handle demo_crates demo_web demo_proxy (demo_request ''GET'') demo_url kv_empty
      = fetch_and_store demo_crates demo_web demo_proxy ''GET'' demo_url [] demo_key kv_empty"
    using handle_eligible [of "demo_request ''GET''" "[]" demo_proxy demo_crates demo_url demo_web kv_empty
        None "px_store demo_proxy" kv_empty] miss demo_eligible
    by (simp add: demo_request_def)
  ultimately show ?thesis
    using stored demo_sanitized
    by (simp add: fetch_and_store_def Let_def upstream_headers_def tag_values [OF demo_tag_law]
        build_Ok [OF demo_tag_law])
      (simp add: demo_up_def demo_proxy_def build_Ok [OF demo_tag_law])
qed

lemma demo_unqueued: "demo_key \<notin> sto_queued (px_store demo_proxy)"
  by (simp add: demo_proxy_def demo_store_def store_new_def)

lemma demo_codec_laws:
  "json_law (lib_to_vec demo_crates) (lib_from_slice demo_crates)"
  "\<forall>h b. lib_to_vec demo_crates h = Ok b \<longrightarrow> length b < 2 ^ 32"
  by (auto simp: json_law_def demo_crates_def split: if_splits)

theorem stored_response_replayed_witness:
  "\<exists>r p1 w1 p2 w2 r2 p3.
     handle demo_crates demo_web demo_proxy (demo_request ''GET'') demo_url kv_empty = (Ok r, p1, w1)
     \<and> serve_all demo_crates demo_web p1 [(demo_request ''POST'', None)] w1 = (p2, w2)
     \<and> handle demo_crates demo_web p2 (demo_request ''GET'') demo_url w2 = (Ok r2, p3, w2)
     \<and> res_body r2 = res_body r"
proof -
  from demo_first obtain r p1 w1 where
    first: "handle demo_crates demo_web demo_proxy (demo_request ''GET'') demo_url kv_empty = (Ok r, p1, w1)"
    and queued: "demo_key \<in> sto_queued (px_store p1)" by blast
  obtain p2 w2 where others: "serve_all demo_crates demo_web p1 [(demo_request ''POST'', None)] w1 = (p2, w2)"
    by fastforce
  have tags: "tag_law (lib_headers demo_crates)" "header_laws (lib_headers demo_crates)"
    "header_text_laws (lib_headers demo_crates)"
    using demo_tag_law alist_header_laws alist_header_text_laws by simp_all
  have relative: "\<not> starts_with (key_prefix (px_policy demo_proxy)) ''/''"
    by (simp add: demo_proxy_def starts_with_def)
  have body: "req_body (demo_request ''GET'') = Inr []" by (simp add: demo_request_def)
  have eligible: "request_eligible (px_policy demo_proxy) (lib_url demo_crates) (lib_headers demo_crates)
      (req_method (demo_request ''GET'')) demo_url (req_headers (demo_request ''GET'')) = Inr ()"
    using demo_eligible by (simp add: demo_request_def)
  from stored_response_replayed [OF demo_web_laws tags(1) tags(2,3) demo_codec_laws relative first refl
      demo_unqueued queued others body eligible] first others
  show ?thesis by metis
qed


theorem only_storable_responses_stored_witness:
  "\<exists>headers b. fst (handle demo_crates demo_web demo_proxy (demo_request ''GET'') demo_url kv_empty)
       = build alist_headers 200 headers b ''MISS''"
proof -
  from demo_first obtain r p1 w1 where
    first: "handle demo_crates demo_web demo_proxy (demo_request ''GET'') demo_url kv_empty = (Ok r, p1, w1)"
    and queued: "demo_key \<in> sto_queued (px_store p1)" by blast
  have "tag_law (lib_headers demo_crates)" using demo_tag_law by simp
  from only_storable_responses_stored [OF this demo_web_laws first, of demo_key] queued demo_unqueued first
  show ?thesis by auto
qed

lemma demo_hit: "\<exists>r p' w'. handle demo_crates demo_web demo_proxy (demo_request ''GET'') demo_url
    (kv_empty\<lparr>kv_files := [(store_path (px_store demo_proxy) demo_key, entry_frame [9] [1, 2])]\<rparr>) = (Ok r, p', w')
  \<and> hm_values alist_headers (res_headers r) ''x-cicache'' = [as_bytes ''HIT'']"
proof -
  let ?w = "kv_empty\<lparr>kv_files := [(store_path (px_store demo_proxy) demo_key, entry_frame [9] [1, 2])]\<rparr>"
  have get: "store_get demo_web demo_key (px_store demo_proxy) ?w
      = (Some (entry_frame [9] [1, 2]), px_store demo_proxy, ?w)"
    by (rule store_get_local) simp
  have digest: "of_bytes [1, 2] = hdr_sha256 (ent_header demo_cached)"
    by (simp add: demo_cached_def entry_new_digest)
  have "entry_decode (lib_from_slice demo_crates) id of_bytes (entry_frame [9] [1, 2])
      = Ok \<lparr>ent_header = ent_header demo_cached, ent_body = [1, 2]\<rparr>"
    by (simp add: entry_decode_frame demo_crates_def digest)
  with get show ?thesis
    using handle_eligible [of "demo_request ''GET''" "[]" demo_proxy demo_crates demo_url demo_web ?w
        "Some (entry_frame [9] [1, 2])" "px_store demo_proxy" ?w] demo_eligible
    by (simp add: demo_request_def replay_def Let_def build_Ok [OF demo_tag_law]
        hm_values_insert [OF alist_header_laws])
qed

theorem hits_are_authentic_witness:
  "\<exists>raw s w' (e :: entry). store_get demo_web demo_key (px_store demo_proxy)
      (kv_empty\<lparr>kv_files := [(store_path (px_store demo_proxy) demo_key, entry_frame [9] [1, 2])]\<rparr>)
        = (Some raw, s, w')
    \<and> of_bytes (ent_body e) = hdr_sha256 (ent_header e)"
proof -
  have laws: "tag_law (lib_headers demo_crates)" "header_laws (lib_headers demo_crates)"
    using demo_tag_law alist_header_laws by simp_all
  from demo_hit obtain r p' w' where
    run: "handle demo_crates demo_web demo_proxy (demo_request ''GET'') demo_url
      (kv_empty\<lparr>kv_files := [(store_path (px_store demo_proxy) demo_key, entry_frame [9] [1, 2])]\<rparr>) = (Ok r, p', w')"
    and tag: "hm_values alist_headers (res_headers r) ''x-cicache'' = [as_bytes ''HIT'']" by blast
  from tag have "hm_values (lib_headers demo_crates) (res_headers r) ''x-cicache'' = [as_bytes ''HIT'']" by simp
  from hits_are_authentic [OF laws run this] show ?thesis by auto
qed

theorem every_request_counted_once_witness:
  "\<exists>resp p' w'. dispatch demo_crates demo_web demo_proxy (demo_request ''GET'') None kv_empty = (Ok resp, p', w')
     \<and> st_requests (sto_stats (px_store p')) = 1"
proof -
  from demo_first obtain r p1 w1 where
    first: "handle demo_crates demo_web demo_proxy (demo_request ''GET'') demo_url kv_empty = (Ok r, p1, w1)" by blast
  have url: "absolute_url (lib_url demo_crates) (demo_request ''GET'') None = Inr demo_url"
    by (simp add: absolute_url_def demo_request_def part_urls_def)
  have kind: "(None :: str option) \<noteq> None \<or> req_method (demo_request ''GET'') \<noteq> ''CONNECT''
      \<and> req_authority (demo_request ''GET'') \<noteq> None"
    by (simp add: demo_request_def)
  with first url have run: "dispatch demo_crates demo_web demo_proxy (demo_request ''GET'') None kv_empty = (Ok r, p1, w1)"
    by (auto simp: dispatch_def)
  have "tag_law (lib_headers demo_crates)" using demo_tag_law by simp
  from every_request_counted_once [OF this url kind run] run show ?thesis
    by (simp add: demo_proxy_def demo_store_def store_new_def stats_default_def)
qed

theorem sanitize_drops_hop_by_hop_witness:
  "hm_values alist_headers (sanitize alist_headers [(''te'', [1]), (''etag'', [2])]) ''te'' = []"
  unfolding sanitize_drops_hop_by_hop [OF alist_header_laws] by simp

theorem bypassed_host_still_intercepted_witness:
  "snd (connect demo_crates demo_proxy
      ((demo_request ''CONNECT'')\<lparr>req_authority := Some (''localhost'', None)\<rparr>)) = Some (Intercept ''localhost'' 443)"
proof -
  let ?req = "(demo_request ''CONNECT'')\<lparr>req_authority := Some (''localhost'', None)\<rparr>"
  have "is_bypassed (px_policy demo_proxy) ''localhost''"
    by (simp add: is_bypassed_def ALWAYS_BYPASS_def host_matches_def trim_start_char_def trim_end_char_def)
  from bypassed_host_still_intercepted [OF this, of ?req None demo_crates "https_url ''localhost'' ''/''"]
  show ?thesis by (simp add: demo_proxy_def part_urls_def https_url_def unwrap_or_default_def)
qed

end
