(* ===== verification/Ca.thy ===== *)
theory Ca
  imports Rust_Str
begin

text \<open>
  The run's certificate authority (\<open>src/src/ca.rs\<close>): the trust bundle handed to the toolchains, the
  PEM form of a certificate, and the leaf certificates minted per host with their cache. Key
  generation, signing, Base64, the TLS configuration builder and the platform's trust store are
  third-party code: the fields of \<open>crypto\<close>. Times are seconds.
\<close>

section \<open>The outside\<close>

datatype key_usage = KeyCertSign | CrlSign | DigitalSignature | KeyEncipherment
datatype extended_key_usage = ServerAuth

record cert_params =
  cp_common_name :: str
  cp_organization :: "str option"
  cp_alt_names :: "str list"
  cp_is_ca :: bool
  cp_authority_key_identifier :: bool
  cp_key_usages :: "key_usage list"
  cp_extended_key_usages :: "extended_key_usage list"
  cp_not_before :: int
  cp_not_after :: int

record tls_config =
  tls_chain :: "bytes list"
  tls_key :: bytes
  tls_alpn :: "bytes list"

record 'w crypto =
  cry_generate :: "'w \<Rightarrow> bytes option \<times> 'w" \<comment> \<open>a key pair, as its DER form\<close>
  cry_self_sign :: "cert_params \<Rightarrow> bytes \<Rightarrow> bytes option" \<comment> \<open>parameters, key; the certificate\<close>
  cry_params_ok :: "str \<Rightarrow> bool" \<comment> \<open>whether a name is accepted as alternative name\<close>
  cry_sign :: "cert_params \<Rightarrow> bytes \<Rightarrow> bytes \<Rightarrow> bytes \<Rightarrow> bytes option"
    \<comment> \<open>parameters, leaf key, issuer certificate, issuer key\<close>
  cry_tls_ok :: "bytes list \<Rightarrow> bytes \<Rightarrow> bool" \<comment> \<open>whether a chain and key make a configuration\<close>
  cry_pem :: "bytes \<Rightarrow> str"
  cry_base64 :: "bytes \<Rightarrow> str"
  cry_date :: "nat \<Rightarrow> nat \<Rightarrow> nat \<Rightarrow> int"
  cry_now :: "'w \<Rightarrow> int"

section \<open>The authority\<close>

definition CA_COMMON_NAME :: str where
  "CA_COMMON_NAME = ''cicache local CA''"

definition SYSTEM_BUNDLES :: "str list" where
  "SYSTEM_BUNDLES =
     [''/etc/ssl/certs/ca-certificates.crt'', ''/etc/pki/tls/certs/ca-bundle.crt'',
      ''/etc/ssl/ca-bundle.pem'']"

record ca =
  ca_cert :: bytes
  ca_key :: bytes
  ca_pem :: str
  ca_configs :: "str \<rightharpoonup> tls_config"

definition ca_params :: "'w crypto \<Rightarrow> cert_params" where
  "ca_params C =
     \<lparr>cp_common_name = CA_COMMON_NAME, cp_organization = Some ''cicache'', cp_alt_names = [],
      cp_is_ca = True, cp_authority_key_identifier = False,
      cp_key_usages = [KeyCertSign, CrlSign, DigitalSignature], cp_extended_key_usages = [],
      cp_not_before = cry_date C 2020 1 1, cp_not_after = cry_date C 2035 1 1\<rparr>"

definition ca_generate :: "'w crypto \<Rightarrow> 'w \<Rightarrow> ca res \<times> 'w" where
  "ca_generate C w =
     (case cry_generate C w of
        (None, w) \<Rightarrow> (Err ''generating CA key'', w)
      | (Some key, w) \<Rightarrow>
          (case cry_self_sign C (ca_params C) key of
             None \<Rightarrow> (Err ''self-signing CA'', w)
           | Some cert \<Rightarrow>
               (Ok \<lparr>ca_cert = cert, ca_key = key, ca_pem = cry_pem C cert, ca_configs = Map.empty\<rparr>, w)))"

section \<open>PEM\<close>

fun chunks64 :: "str \<Rightarrow> str list" where
  "chunks64 s = (if s = [] then [] else take 64 s # chunks64 (drop 64 s))"

declare chunks64.simps [simp del]

definition pem_begin :: str where
  "pem_begin = ''-----BEGIN CERTIFICATE-----''"

definition pem_end :: str where
  "pem_end = ''-----END CERTIFICATE-----''"

definition pem_encode :: "(bytes \<Rightarrow> str) \<Rightarrow> bytes \<Rightarrow> str" where
  "pem_encode base64 cert =
     foldl (\<lambda>out chunk. out @ chunk @ [NL]) (pem_begin @ [NL]) (chunks64 (base64 cert)) @ pem_end @ [NL]"

section \<open>The trust bundle\<close>

text \<open>The loop over \<open>SYSTEM_BUNDLES\<close>, left at the first file that reads.\<close>

fun first_bundle :: "(str \<Rightarrow> str option) \<Rightarrow> str list \<Rightarrow> str \<Rightarrow> str" where
  "first_bundle readfile [] bundle = bundle"
| "first_bundle readfile (path # paths) bundle =
     (case readfile path of
        Some contents \<Rightarrow>
          (let bundle = bundle @ contents in if ends_with bundle [NL] then bundle else bundle @ [NL])
      | None \<Rightarrow> first_bundle readfile paths bundle)"

definition trust_bundle :: "(bytes \<Rightarrow> str) \<Rightarrow> bytes list \<Rightarrow> (str \<Rightarrow> str option) \<Rightarrow> ca \<Rightarrow> str res" where
  "trust_bundle base64 native readfile c =
     (let bundle = foldl (\<lambda>bundle cert. bundle @ pem_encode base64 cert) [] native;
          bundle = (if bundle = [] then first_bundle readfile SYSTEM_BUNDLES bundle else bundle) in
      if bundle = [] then Err ''no system trust roots found'' else Ok (bundle @ ca_pem c))"

text \<open>
  The two files handed to the toolchains; \<open>readfile\<close> and \<open>writefile\<close> are the file system. The bundle is
  built after the first file is written.
\<close>

definition write_files ::
  "(bytes \<Rightarrow> str) \<Rightarrow> bytes list \<Rightarrow> (str \<Rightarrow> 'w \<Rightarrow> str option) \<Rightarrow> (str \<Rightarrow> str \<Rightarrow> 'w \<Rightarrow> bool \<times> 'w)
     \<Rightarrow> str \<Rightarrow> ca \<Rightarrow> 'w \<Rightarrow> (str \<times> str) res \<times> 'w" where
  "write_files base64 native readfile writefile dir c w =
     (let ca_path = path_join dir ''ca.pem''; bundle_path = path_join dir ''ca-bundle.pem'' in
      case writefile ca_path (ca_pem c) w of
        (False, w) \<Rightarrow> (Err ''writing ca.pem'', w)
      | (True, w) \<Rightarrow>
          (case trust_bundle base64 native (\<lambda>path. readfile path w) c of
             Ok bundle \<Rightarrow>
               (case writefile bundle_path bundle w of
                  (False, w) \<Rightarrow> (Err ''writing ca-bundle.pem'', w)
                | (True, w) \<Rightarrow> (Ok (ca_path, bundle_path), w))
           | Err e \<Rightarrow> (Err e, w)
           | Panic \<Rightarrow> (Panic, w)))"

section \<open>Leaf certificates\<close>

definition day :: int where
  "day = 86400"

definition leaf_params :: "str \<Rightarrow> int \<Rightarrow> cert_params" where
  "leaf_params host now =
     \<lparr>cp_common_name = host, cp_organization = None, cp_alt_names = [host], cp_is_ca = False,
      cp_authority_key_identifier = True, cp_key_usages = [DigitalSignature, KeyEncipherment],
      cp_extended_key_usages = [ServerAuth], cp_not_before = now - 1 * day,
      cp_not_after = now + 300 * day\<rparr>"

definition server_config :: "'w crypto \<Rightarrow> str \<Rightarrow> ca \<Rightarrow> 'w \<Rightarrow> tls_config res \<times> ca \<times> 'w" where
  "server_config C host c w =
     (case ca_configs c host of
        Some existing \<Rightarrow> (Ok existing, c, w)
      | None \<Rightarrow>
          (case cry_generate C w of
             (None, w) \<Rightarrow> (Err ''generating leaf key'', c, w)
           | (Some leaf_key, w) \<Rightarrow>
               if \<not> cry_params_ok C host then (Err ''building leaf params'', c, w)
               else case cry_sign C (leaf_params host (cry_now C w)) leaf_key (ca_cert c) (ca_key c) of
                 None \<Rightarrow> (Err (''signing leaf certificate for '' @ host), c, w)
               | Some leaf \<Rightarrow>
                   let chain = [leaf, ca_cert c] in
                   if \<not> cry_tls_ok C chain leaf_key then (Err ''building rustls server config'', c, w)
                   else
                     let config = \<lparr>tls_chain = chain, tls_key = leaf_key,
                       tls_alpn = [as_bytes ''http/1.1'']\<rparr> in
                     (Ok config, c\<lparr>ca_configs := (ca_configs c)(host \<mapsto> config)\<rparr>, w)))"

section \<open>Lemmas\<close>

lemma concat_chunks64: "concat (chunks64 s) = s"
  by (induction s rule: chunks64.induct) (subst chunks64.simps, simp)

lemma chunks64_sizes:
  "c \<in> set (chunks64 s) \<Longrightarrow> c \<noteq> [] \<and> length c \<le> 64"
  by (induction s rule: chunks64.induct) (subst (asm) (2) chunks64.simps, auto split: if_splits)

lemma chunks64_full: "Suc i < length (chunks64 s) \<Longrightarrow> length (chunks64 s ! i) = 64"
proof (induction s arbitrary: i rule: chunks64.induct)
  case (1 s)
  show ?case
  proof (cases "s = []")
    case True
    with 1(2) show ?thesis by (simp add: chunks64.simps [of "[]"])
  next
    case False
    have unfold: "chunks64 s = take 64 s # chunks64 (drop 64 s)"
      using False by (subst chunks64.simps) simp
    show ?thesis
    proof (cases i)
      case 0
      with 1(2) unfold have "chunks64 (drop 64 s) \<noteq> []" by auto
      then have "drop 64 s \<noteq> []" by (auto simp: chunks64.simps [of "[]"])
      with unfold 0 show ?thesis by simp
    next
      case (Suc j)
      with 1(1) [OF False, of j] 1(2) unfold show ?thesis by simp
    qed
  qed
qed

lemma pem_encode_lines:
  "pem_encode base64 cert = join [NL] (pem_begin # chunks64 (base64 cert) @ [pem_end]) @ [NL]"
proof -
  have "foldl (\<lambda>out chunk. out @ chunk @ [NL]) a cs @ e = join [NL] ((a @ concat (map (\<lambda>c. c @ [NL]) cs) @ e) # [])"
    for a cs e by (induction cs arbitrary: a) auto
  moreover have "join [NL] (b # cs @ [e]) = b @ NL # concat (map (\<lambda>c. c @ [NL]) cs) @ e" for b cs e
    by (induction cs arbitrary: b) (auto simp: join_Cons)
  ultimately show ?thesis by (simp add: pem_encode_def)
qed

lemma pem_encode_nonempty [simp]: "pem_encode base64 cert \<noteq> []"
  by (simp add: pem_encode_def)

lemma native_bundle: "foldl (\<lambda>bundle cert. bundle @ pem_encode base64 cert) b native
    = b @ concat (map (pem_encode base64) native)"
  by (induction native arbitrary: b) auto

fun serve_hosts :: "'w crypto \<Rightarrow> str list \<Rightarrow> ca \<Rightarrow> 'w \<Rightarrow> ca \<times> 'w" where
  "serve_hosts C [] c w = (c, w)"
| "serve_hosts C (h # hs) c w = (case server_config C h c w of (_, c, w) \<Rightarrow> serve_hosts C hs c w)"

lemma server_config_keeps:
  "server_config C h c w = (r, c', w') \<Longrightarrow> ca_configs c host = Some t \<Longrightarrow> ca_configs c' host = Some t"
  by (auto simp: server_config_def Let_def split: option.splits prod.splits if_splits)

lemma serve_hosts_keep:
  "serve_hosts C hs c w = (c', w') \<Longrightarrow> ca_configs c host = Some t \<Longrightarrow> ca_configs c' host = Some t"
  by (induction C hs c w rule: serve_hosts.induct) (auto dest: server_config_keeps split: prod.splits)

section \<open>Properties\<close>

text \<open>C36. The bundle is the system's roots followed by the run's authority, or there is none: the
  platform store in full if it has a certificate, else the first system file that can be read, its
  last line ended; with neither, the function refuses.\<close>

theorem trust_bundle_extends_roots:
  "trust_bundle base64 native readfile c =
    (if native \<noteq> [] then Ok (concat (map (pem_encode base64) native) @ ca_pem c)
     else case find (\<lambda>path. readfile path \<noteq> None) SYSTEM_BUNDLES of
       None \<Rightarrow> Err ''no system trust roots found''
     | Some path \<Rightarrow>
         (let roots = the (readfile path) in
          Ok (roots @ (if ends_with roots [NL] then [] else [NL]) @ ca_pem c)))"
proof (cases "native = []")
  case False
  then have "concat (map (pem_encode base64) native) \<noteq> []" by (cases native) auto
  with False show ?thesis by (simp add: trust_bundle_def native_bundle)
next
  case True
  have "first_bundle readfile paths [] = (case find (\<lambda>path. readfile path \<noteq> None) paths of
      None \<Rightarrow> [] | Some path \<Rightarrow> the (readfile path) @ (if ends_with (the (readfile path)) [NL] then [] else [NL]))"
    for paths by (induction paths) (auto simp: Let_def split: option.splits)
  moreover have "\<not> ends_with [] [NL]" by (simp add: ends_with_def)
  ultimately show ?thesis
    using True by (auto simp: trust_bundle_def Let_def split: option.splits)
qed

text \<open>The refusal has a gap: where the platform store has no certificate and the first readable
  system file is empty, the bundle is a blank line and the run's own authority, with no real root.\<close>

theorem empty_system_bundle_accepted:
  assumes "readfile ''/etc/ssl/certs/ca-certificates.crt'' = Some []"
  shows "trust_bundle base64 [] readfile c = Ok (NL # ca_pem c)"
  using assms by (simp add: trust_bundle_def SYSTEM_BUNDLES_def ends_with_def)

text \<open>The PEM form reads back line by line: the markers around the Base64 text, cut into lines of
  exactly 64 characters but for the last, none of them empty, with nothing lost.\<close>

theorem pem_lines:
  assumes "\<forall>ch \<in> set (base64 cert). ch \<noteq> NL \<and> ch \<noteq> CR"
  shows "\<exists>body. str_lines (pem_encode base64 cert) = pem_begin # body @ [pem_end]
    \<and> concat body = base64 cert
    \<and> (\<forall>line \<in> set body. line \<noteq> [] \<and> length line \<le> 64)
    \<and> (\<forall>i. Suc i < length body \<longrightarrow> length (body ! i) = 64)"
proof -
  let ?lines = "pem_begin # chunks64 (base64 cert) @ [pem_end]"
  have "plain_line chunk" if "chunk \<in> set (chunks64 (base64 cert))" for chunk
  proof -
    have "chunk \<noteq> []" using chunks64_sizes [OF that] by simp
    moreover have "set chunk \<subseteq> set (base64 cert)"
      using that by (subst concat_chunks64 [of "base64 cert", symmetric]) auto
    ultimately show ?thesis using assms unfolding plain_line_def by (metis last_in_set subsetD)
  qed
  moreover have "plain_line pem_begin" "plain_line pem_end"
    by (simp_all add: plain_line_def pem_begin_def pem_end_def NL_def CR_def)
  ultimately have plain: "\<forall>s \<in> set ?lines. plain_line s" by auto
  have trailing: "str_lines (join [NL] ls @ [NL]) = ls" if "\<forall>s \<in> set ls. plain_line s" "ls \<noteq> []" for ls
    using that
  proof (induction "[NL]" ls rule: join.induct)
    case (2 s)
    then show ?case using lines_from_line [of s "[]" "[]"]
      by (simp add: str_lines_def plain_line_def strip_cr_def)
  next
    case (3 s t r)
    then show ?case by (simp add: str_lines_def plain_line_def lines_from_line strip_cr_def)
  qed simp
  show ?thesis
    using trailing [OF plain] chunks64_sizes chunks64_full concat_chunks64
    by (intro exI [of _ "chunks64 (base64 cert)"]) (auto simp: pem_encode_lines)
qed

text \<open>A host's TLS configuration is made once per run: asked for again, whatever was asked for in
  between, the same one is returned without generating a key and without any other change.\<close>

theorem server_config_made_once:
  assumes "server_config C host c w = (Ok config, c1, w1)"
    and "serve_hosts C others c1 w1 = (c2, w2)"
  shows "server_config C host c2 w2 = (Ok config, c2, w2)"
proof -
  have "ca_configs c1 host = Some config"
    using assms(1) by (auto simp: server_config_def Let_def split: option.splits prod.splits if_splits)
  from serve_hosts_keep [OF assms(2) this] show ?thesis by (simp add: server_config_def)
qed

text \<open>A new leaf certificate is for its host alone, cannot sign, is valid when it is made, and for
  less than the 398 days some platforms allow; it is presented with the authority that signed it.\<close>

theorem leaf_within_platform_limits:
  assumes "ca_configs c host = None" "server_config C host c w = (Ok config, c', w')"
  shows "\<exists>key leaf params. cry_sign C params key (ca_cert c) (ca_key c) = Some leaf
    \<and> tls_chain config = [leaf, ca_cert c] \<and> tls_key config = key
    \<and> cp_alt_names params = [host] \<and> \<not> cp_is_ca params \<and> KeyCertSign \<notin> set (cp_key_usages params)
    \<and> cp_not_before params < cry_now C w' \<and> cry_now C w' < cp_not_after params
    \<and> cp_not_after params - cp_not_before params < 398 * day"
proof -
  from assms obtain key leaf where "cry_sign C (leaf_params host (cry_now C w')) key (ca_cert c) (ca_key c) = Some leaf"
    "tls_chain config = [leaf, ca_cert c]" "tls_key config = key"
    by (auto simp: server_config_def Let_def split: option.splits prod.splits if_splits)
  then show ?thesis
    by (intro exI [of _ key] exI [of _ leaf] exI [of _ "leaf_params host (cry_now C w')"])
      (simp add: leaf_params_def day_def)
qed

section \<open>Witnesses\<close>

text \<open>A library whose world counts the keys it has generated.\<close>

definition demo_crypto :: "nat crypto" where
  "demo_crypto =
     \<lparr>cry_generate = (\<lambda>n. (Some [word_of_nat n], Suc n)), cry_self_sign = (\<lambda>params key. Some key),
      cry_params_ok = (\<lambda>h. h \<noteq> []), cry_sign = (\<lambda>params key cert ca_key. Some (key @ cert)),
      cry_tls_ok = (\<lambda>chain key. True), cry_pem = of_bytes, cry_base64 = (\<lambda>c. concat (map (\<lambda>_. ''QQ=='') c)),
      cry_date = (\<lambda>y m d. int y * 31536000), cry_now = (\<lambda>n. 1700000000)\<rparr>"

definition demo_ca :: ca where
  "demo_ca = \<lparr>ca_cert = [7], ca_key = [8], ca_pem = ''CA'', ca_configs = Map.empty\<rparr>"

definition demo_tls :: tls_config where
  "demo_tls = \<lparr>tls_chain = [[0, 7], [7]], tls_key = [0], tls_alpn = [as_bytes ''http/1.1'']\<rparr>"

lemma demo_minted: "server_config demo_crypto ''h'' demo_ca 0
    = (Ok demo_tls, demo_ca\<lparr>ca_configs := [''h'' \<mapsto> demo_tls]\<rparr>, 1)"
  by (simp add: server_config_def demo_crypto_def demo_ca_def demo_tls_def Let_def)

theorem empty_system_bundle_accepted_witness:
  "trust_bundle (cry_base64 demo_crypto) [] (\<lambda>path. Some []) demo_ca = Ok (NL # ''CA'')"
  using empty_system_bundle_accepted [of "\<lambda>path. Some []" "cry_base64 demo_crypto" demo_ca]
  by (simp add: demo_ca_def)

theorem pem_lines_witness:
  "\<exists>body. str_lines (pem_encode (cry_base64 demo_crypto) (replicate 20 1)) = pem_begin # body @ [pem_end]
    \<and> concat body = concat (replicate 20 ''QQ=='')"
proof -
  have "cry_base64 demo_crypto (replicate n 1) = concat (replicate n ''QQ=='')" for n
    by (simp add: demo_crypto_def)
  then show ?thesis
    using pem_lines [of "cry_base64 demo_crypto" "replicate 20 1"] by (auto simp: NL_def CR_def)
qed

theorem server_config_made_once_witness:
  "\<exists>c w. serve_hosts demo_crypto [''i'', ''j''] (demo_ca\<lparr>ca_configs := [''h'' \<mapsto> demo_tls]\<rparr>) 1 = (c, w)
    \<and> server_config demo_crypto ''h'' c w = (Ok demo_tls, c, w)"
proof -
  obtain c w where others:
    "serve_hosts demo_crypto [''i'', ''j''] (demo_ca\<lparr>ca_configs := [''h'' \<mapsto> demo_tls]\<rparr>) 1 = (c, w)"
    by fastforce
  from server_config_made_once [OF demo_minted others] others show ?thesis by blast
qed

theorem leaf_within_platform_limits_witness:
  "\<exists>key leaf params. cry_sign demo_crypto params key [7] [8] = Some leaf
    \<and> cp_not_after params - cp_not_before params < 398 * day"
proof -
  have "ca_configs demo_ca ''h'' = None" by (simp add: demo_ca_def)
  from leaf_within_platform_limits [OF this demo_minted] show ?thesis by (auto simp: demo_ca_def)
qed

end
