(* ===== verification/Args.thy ===== *)
theory Args
  imports Policy Store
begin

text \<open>
  The settings of a job (\<open>src/src/main.rs\<close>): the flags of \<open>start\<close> and how they reach the daemon, the
  environment handed to the job's tools, and the curl configuration, as texts. The platform test
  \<open>cfg!(target_os = "macos")\<close> is the argument \<open>macos\<close>.
\<close>

section \<open>Arguments\<close>

record proxy_args =
  pa_port :: u16
  pa_state_dir :: "str option"
  pa_min_size :: u64
  pa_max_size :: u64
  pa_cache_all :: bool
  pa_min_max_age :: u64
  pa_cache_authorized :: bool
  pa_bypass :: "str list"
  pa_mitm_ports :: "u16 list"
  pa_no_follow_redirects :: bool
  pa_upload_concurrency :: u64
  pa_pack_threshold :: u64
  pa_pack_limit :: u64
  pa_scope :: "str option"
  pa_key_prefix :: str
  pa_no_github_env :: bool

definition default_args :: proxy_args where
  "default_args =
     \<lparr>pa_port = 0, pa_state_dir = None, pa_min_size = 32 * 1024, pa_max_size = 512 * 1024 * 1024,
      pa_cache_all = False, pa_min_max_age = 3600, pa_cache_authorized = False, pa_bypass = [],
      pa_mitm_ports = [443, 8443], pa_no_follow_redirects = False, pa_upload_concurrency = 8,
      pa_pack_threshold = 1024 * 1024, pa_pack_limit = 512 * 1024 * 1024, pa_scope = None,
      pa_key_prefix = ''cicache-v1'', pa_no_github_env = False\<rparr>"

record state =
  stt_pid :: u32
  stt_port :: u16
  stt_ca_path :: str
  stt_bundle_path :: str
  stt_log_path :: str

definition resolve_state_dir :: "(str \<Rightarrow> str option) \<Rightarrow> str \<Rightarrow> str option \<Rightarrow> str" where
  "resolve_state_dir env temp_dir arg =
     (case arg of
        Some dir \<Rightarrow> dir
      | None \<Rightarrow> path_join (case env ''RUNNER_TEMP'' of None \<Rightarrow> temp_dir | Some dir \<Rightarrow> dir) ''cicache'')"

definition env_or :: "(str \<Rightarrow> str option) \<Rightarrow> str \<Rightarrow> str \<Rightarrow> str" where
  "env_or env name other = (case env name of None \<Rightarrow> other | Some v \<Rightarrow> v)"

definition args_scope :: "(str \<Rightarrow> str option) \<Rightarrow> proxy_args \<Rightarrow> str" where
  "args_scope env args =
     (case pa_scope args of
        Some s \<Rightarrow> s
      | None \<Rightarrow>
          env_or env ''GITHUB_JOB'' ''job'' @ ''-'' @ env_or env ''RUNNER_OS'' ''os'' @ ''-''
          @ env_or env ''RUNNER_ARCH'' ''arch'')"

definition to_run_args :: "(str \<Rightarrow> str option) \<Rightarrow> proxy_args \<Rightarrow> str \<Rightarrow> str list" where
  "to_run_args env args dir =
     [''--port'', dec (unat (pa_port args)),
      ''--state-dir'', dir,
      ''--min-size'', dec (unat (pa_min_size args)),
      ''--max-size'', dec (unat (pa_max_size args)),
      ''--min-max-age'', dec (unat (pa_min_max_age args)),
      ''--upload-concurrency'', dec (unat (pa_upload_concurrency args)),
      ''--key-prefix'', pa_key_prefix args,
      ''--scope'', args_scope env args,
      ''--pack-threshold'', dec (unat (pa_pack_threshold args)),
      ''--pack-limit'', dec (unat (pa_pack_limit args))]
     @ (if pa_cache_all args then [''--cache-all''] else [])
     @ (if pa_cache_authorized args then [''--cache-authorized''] else [])
     @ (if pa_no_follow_redirects args then [''--no-follow-redirects''] else [])
     @ (if pa_bypass args \<noteq> [] then [''--bypass'', join '','' (pa_bypass args)] else [])
     @ (if pa_mitm_ports args \<noteq> []
        then [''--mitm-ports'', join '','' (map (\<lambda>p. dec (unat p)) (pa_mitm_ports args))] else [])"

text \<open>
  What the declarations of \<open>ProxyArgs\<close> make of a command line: an option takes the next word, a
  switch none, a list splits at commas, numbers must fit their type. A word that starts with a dash
  is never taken as a value, but for the dash alone. Later options replace earlier ones, as no flag
  is given twice here.
\<close>

definition value_word :: "str \<Rightarrow> bool" where
  "value_word v \<longleftrightarrow> v = ''-'' \<or> \<not> starts_with v ''-''"

definition parse_u16 :: "str \<Rightarrow> u16 option" where
  "parse_u16 s = Option.bind (parse_u64 s) (\<lambda>n. if unat n < 65536 then Some (word_of_nat (unat n)) else None)"

fun parse_all :: "(str \<Rightarrow> 'a option) \<Rightarrow> str list \<Rightarrow> 'a list option" where
  "parse_all f [] = Some []"
| "parse_all f (s # ss) = (case (f s, parse_all f ss) of (Some x, Some xs) \<Rightarrow> Some (x # xs) | _ \<Rightarrow> None)"

definition set_option :: "str \<Rightarrow> str \<Rightarrow> proxy_args \<Rightarrow> proxy_args option" where
  "set_option flag v a =
     (if flag = ''--port'' then map_option (\<lambda>n. a\<lparr>pa_port := n\<rparr>) (parse_u16 v)
      else if flag = ''--state-dir'' then Some (a\<lparr>pa_state_dir := Some v\<rparr>)
      else if flag = ''--min-size'' then map_option (\<lambda>n. a\<lparr>pa_min_size := n\<rparr>) (parse_u64 v)
      else if flag = ''--max-size'' then map_option (\<lambda>n. a\<lparr>pa_max_size := n\<rparr>) (parse_u64 v)
      else if flag = ''--min-max-age'' then map_option (\<lambda>n. a\<lparr>pa_min_max_age := n\<rparr>) (parse_u64 v)
      else if flag = ''--upload-concurrency''
        then map_option (\<lambda>n. a\<lparr>pa_upload_concurrency := n\<rparr>) (parse_u64 v)
      else if flag = ''--key-prefix'' then Some (a\<lparr>pa_key_prefix := v\<rparr>)
      else if flag = ''--scope'' then Some (a\<lparr>pa_scope := Some v\<rparr>)
      else if flag = ''--pack-threshold'' then map_option (\<lambda>n. a\<lparr>pa_pack_threshold := n\<rparr>) (parse_u64 v)
      else if flag = ''--pack-limit'' then map_option (\<lambda>n. a\<lparr>pa_pack_limit := n\<rparr>) (parse_u64 v)
      else if flag = ''--bypass'' then Some (a\<lparr>pa_bypass := split_on (CHR '','') v\<rparr>)
      else if flag = ''--mitm-ports''
        then map_option (\<lambda>ns. a\<lparr>pa_mitm_ports := ns\<rparr>) (parse_all parse_u16 (split_on (CHR '','') v))
      else None)"

definition set_switch :: "str \<Rightarrow> proxy_args \<Rightarrow> proxy_args option" where
  "set_switch flag a =
     (if flag = ''--cache-all'' then Some (a\<lparr>pa_cache_all := True\<rparr>)
      else if flag = ''--cache-authorized'' then Some (a\<lparr>pa_cache_authorized := True\<rparr>)
      else if flag = ''--no-follow-redirects'' then Some (a\<lparr>pa_no_follow_redirects := True\<rparr>)
      else if flag = ''--no-github-env'' then Some (a\<lparr>pa_no_github_env := True\<rparr>)
      else None)"

fun read_args :: "str list \<Rightarrow> proxy_args \<Rightarrow> proxy_args option" where
  "read_args [] a = Some a"
| "read_args [flag] a = set_switch flag a"
| "read_args (flag # v # rest) a =
     (case set_switch flag a of
        Some a' \<Rightarrow> read_args (v # rest) a'
      | None \<Rightarrow>
          if value_word v then (case set_option flag v a of Some a' \<Rightarrow> read_args rest a' | None \<Rightarrow> None)
          else None)"

section \<open>The job's environment\<close>

definition environment :: "bool \<Rightarrow> state \<Rightarrow> (str \<times> str) list" where
  "environment macos st =
     (let proxy = ''http://127.0.0.1:'' @ dec (unat (stt_port st));
          bundle = stt_bundle_path st;
          ca = stt_ca_path st;
          no_proxy = join '',''
            [''localhost'', ''127.0.0.1'', ''::1'', ''169.254.169.254'',
             ''.actions.githubusercontent.com'', ''.blob.core.windows.net''] in
      map (\<lambda>name. (name, proxy)) [''HTTP_PROXY'', ''http_proxy'', ''HTTPS_PROXY'', ''https_proxy'']
      @ map (\<lambda>name. (name, no_proxy)) [''NO_PROXY'', ''no_proxy'']
      @ map (\<lambda>name. (name, bundle))
          [''SSL_CERT_FILE'', ''REQUESTS_CA_BUNDLE'', ''CURL_CA_BUNDLE'', ''AWS_CA_BUNDLE'',
           ''CARGO_HTTP_CAINFO'', ''GIT_SSL_CAINFO'']
      @ map (\<lambda>name. (name, ca)) [''NODE_EXTRA_CA_CERTS'', ''DENO_CERT'']
      @ (if macos then [(''HOMEBREW_CURLRC'', ''1'')] else []))"

text \<open>Where the variables go: appended to the file \<open>GITHUB_ENV\<close> names, or printed.\<close>

datatype export = AppendTo str "str list" | PrintLines "str list"

definition export_environment :: "(str \<Rightarrow> str option) \<Rightarrow> bool \<Rightarrow> state \<Rightarrow> bool \<Rightarrow> export" where
  "export_environment env macos st no_github_env =
     (let vars = environment macos st;
          github_env = (if no_github_env then None else env ''GITHUB_ENV'') in
      case github_env of
        Some path \<Rightarrow> AppendTo path (map (\<lambda>(name, v). name @ ''='' @ v @ [NL]) vars)
      | None \<Rightarrow> PrintLines (map (\<lambda>(name, v). ''export '' @ name @ ''='' @ v) vars))"

definition CURLRC_MARKER :: str where
  "CURLRC_MARKER = ''# added by cicache''"

definition curlrc_path :: "(str \<Rightarrow> str option) \<Rightarrow> str option" where
  "curlrc_path env = map_option (\<lambda>home. path_join home ''.curlrc'') (env ''HOME'')"

text \<open>What becomes of a file: left alone, written, removed.\<close>

datatype file_change = Keep | Write str | Remove

definition write_curlrc :: "bool \<Rightarrow> str \<Rightarrow> str option \<Rightarrow> file_change" where
  "write_curlrc macos bundle_path on_disk =
     (if \<not> macos then Keep
      else
        let existing = (case on_disk of None \<Rightarrow> [] | Some s \<Rightarrow> s) in
        if contains existing CURLRC_MARKER then Keep
        else
          let contents = (if existing \<noteq> [] \<and> \<not> ends_with existing [NL] then existing @ [NL] else existing) in
          Write (contents @ CURLRC_MARKER @ [NL] @ ''cacert = '' @ bundle_path @ [NL]))"

definition clear_curlrc :: "str option \<Rightarrow> file_change" where
  "clear_curlrc on_disk =
     (case on_disk of
        None \<Rightarrow> Keep
      | Some contents \<Rightarrow>
          if \<not> contains contents CURLRC_MARKER then Keep
          else
            let kept = filter (\<lambda>line. \<not> starts_with line CURLRC_MARKER \<and> \<not> starts_with line ''cacert = '')
              (str_lines contents) in
            if list_all (\<lambda>line. trim line = []) kept then Remove else Write (join [NL] kept @ [NL]))"

definition args_config :: "(str \<Rightarrow> str option) \<Rightarrow> proxy_args \<Rightarrow> store_config" where
  "args_config env args =
     \<lparr>cfg_key_prefix = pa_key_prefix args, cfg_scope = args_scope env args,
      cfg_pack_threshold = pa_pack_threshold args, cfg_pack_limit = pa_pack_limit args,
      cfg_concurrency = unat (pa_upload_concurrency args)\<rparr>"

definition args_policy :: "proxy_args \<Rightarrow> policy" where
  "args_policy args =
     \<lparr>min_size = pa_min_size args, max_size = pa_max_size args, min_max_age = pa_min_max_age args,
      cache_all = pa_cache_all args, cache_authorized = pa_cache_authorized args,
      extra_bypass = pa_bypass args, key_prefix = pa_key_prefix args\<rparr>"

section \<open>Arguments reach the daemon\<close>

lemma parse_u64_unat [simp]: "parse_u64 (dec (unat (n :: u64))) = Some n"
  using parse_u64_dec [of "unat n"] unat_u64_less [of n] by (simp del: unat_u64_less)

lemma parse_u16_unat [simp]: "parse_u16 (dec (unat (n :: u16))) = Some n"
proof -
  have "unat n < 65536" by simp
  then have less: "unat n < 2 ^ 64" by (rule order.strict_trans) simp
  then have "parse_u64 (dec (unat n)) = Some (word_of_nat (unat n))" by (rule parse_u64_dec)
  moreover have "unat (word_of_nat (unat n) :: u64) = unat n" using less by (rule unat_u64_of_nat)
  ultimately show ?thesis by (simp add: parse_u16_def)
qed

lemma parse_all_map: "(\<And>x. f (g x) = Some x) \<Longrightarrow> parse_all f (map g xs) = Some xs"
  by (induction xs) simp_all

lemma dec_no_comma: "CHR '','' \<notin> set (dec n)"
proof
  assume "CHR '','' \<in> set (dec n)"
  from dec_code [OF this] show False by simp
qed

lemma value_dec [simp]: "value_word (dec n)"
proof -
  obtain c s where dec: "dec n = c # s" by (cases "dec n") auto
  then have "48 \<le> (of_char c :: nat)" using dec_code [of c n] by simp
  then have "c \<noteq> CHR ''-''" by auto
  with dec show ?thesis by (simp add: value_word_def starts_with_def)
qed

lemma value_join:
  assumes "\<forall>s \<in> set ss. \<not> starts_with s ''-''"
  shows "value_word (join '','' ss)"
proof (cases "('','', ss)" rule: join.cases)
  case (3 sep s t r)
  with assms show ?thesis by (cases s) (auto simp: value_word_def starts_with_def)
qed (use assms in \<open>auto simp: value_word_def starts_with_def\<close>)

lemma read_option:
  "set_switch flag a = None \<Longrightarrow> value_word v \<Longrightarrow> set_option flag v a = Some a'
    \<Longrightarrow> read_args (flag # v # rest) a = read_args rest a'"
  by simp

lemma read_switch:
  "set_switch flag a = Some a' \<Longrightarrow> rest \<noteq> [] \<Longrightarrow> read_args (flag # rest) a = read_args rest a'"
  by (cases rest) simp_all

lemma read_switch_if:
  "set_switch flag a = Some a' \<Longrightarrow> rest \<noteq> []
    \<Longrightarrow> read_args ((if b then [flag] else []) @ rest) a = read_args rest (if b then a' else a)"
  by (simp add: read_switch)

lemma set_switch_values:
  "set_switch ''--port'' a = None" "set_switch ''--state-dir'' a = None" "set_switch ''--min-size'' a = None"
  "set_switch ''--max-size'' a = None" "set_switch ''--min-max-age'' a = None"
  "set_switch ''--upload-concurrency'' a = None" "set_switch ''--key-prefix'' a = None"
  "set_switch ''--scope'' a = None" "set_switch ''--pack-threshold'' a = None"
  "set_switch ''--pack-limit'' a = None" "set_switch ''--bypass'' a = None"
  "set_switch ''--mitm-ports'' a = None"
  "set_switch ''--cache-all'' a = Some (a\<lparr>pa_cache_all := True\<rparr>)"
  "set_switch ''--cache-authorized'' a = Some (a\<lparr>pa_cache_authorized := True\<rparr>)"
  "set_switch ''--no-follow-redirects'' a = Some (a\<lparr>pa_no_follow_redirects := True\<rparr>)"
  by (simp_all add: set_switch_def)

lemma set_option_values:
  "set_option ''--port'' v a = map_option (\<lambda>n. a\<lparr>pa_port := n\<rparr>) (parse_u16 v)"
  "set_option ''--state-dir'' v a = Some (a\<lparr>pa_state_dir := Some v\<rparr>)"
  "set_option ''--min-size'' v a = map_option (\<lambda>n. a\<lparr>pa_min_size := n\<rparr>) (parse_u64 v)"
  "set_option ''--max-size'' v a = map_option (\<lambda>n. a\<lparr>pa_max_size := n\<rparr>) (parse_u64 v)"
  "set_option ''--min-max-age'' v a = map_option (\<lambda>n. a\<lparr>pa_min_max_age := n\<rparr>) (parse_u64 v)"
  "set_option ''--upload-concurrency'' v a = map_option (\<lambda>n. a\<lparr>pa_upload_concurrency := n\<rparr>) (parse_u64 v)"
  "set_option ''--key-prefix'' v a = Some (a\<lparr>pa_key_prefix := v\<rparr>)"
  "set_option ''--scope'' v a = Some (a\<lparr>pa_scope := Some v\<rparr>)"
  "set_option ''--pack-threshold'' v a = map_option (\<lambda>n. a\<lparr>pa_pack_threshold := n\<rparr>) (parse_u64 v)"
  "set_option ''--pack-limit'' v a = map_option (\<lambda>n. a\<lparr>pa_pack_limit := n\<rparr>) (parse_u64 v)"
  "set_option ''--bypass'' v a = Some (a\<lparr>pa_bypass := split_on (CHR '','') v\<rparr>)"
  "set_option ''--mitm-ports'' v a
     = map_option (\<lambda>ns. a\<lparr>pa_mitm_ports := ns\<rparr>) (parse_all parse_u16 (split_on (CHR '','') v))"
  by (simp_all add: set_option_def)

lemma read_ports:
  assumes "pa_mitm_ports args \<noteq> []"
  shows "read_args [''--mitm-ports'', join '','' (map (\<lambda>p. dec (unat p)) (pa_mitm_ports args))] a
    = Some (a\<lparr>pa_mitm_ports := pa_mitm_ports args\<rparr>)"
proof -
  have "split_on (CHR '','') (join '','' (map (\<lambda>p. dec (unat p)) (pa_mitm_ports args)))
      = map (\<lambda>p. dec (unat p)) (pa_mitm_ports args)"
    using assms by (intro split_on_join) (auto simp: dec_no_comma)
  moreover have "\<not> starts_with (dec n) ''-''" for n
    using value_dec [of n] dec_code [of "CHR ''-''" n] by (auto simp: value_word_def)
  then have "value_word (join '','' (map (\<lambda>p. dec (unat p)) (pa_mitm_ports args)))"
    by (intro value_join) auto
  ultimately show ?thesis by (simp add: set_switch_values set_option_values parse_all_map)
qed

lemma read_bypass:
  assumes "\<forall>b \<in> set (pa_bypass args). CHR '','' \<notin> set b \<and> \<not> starts_with b ''-''"
    and "rest \<noteq> []" "pa_bypass a = []"
  shows "read_args ((if pa_bypass args \<noteq> [] then [''--bypass'', join '','' (pa_bypass args)] else []) @ rest) a
    = read_args rest (a\<lparr>pa_bypass := pa_bypass args\<rparr>)"
proof (cases "pa_bypass args = []")
  case True
  with assms(3) show ?thesis by (cases a) simp
next
  case False
  with assms(1) have "split_on (CHR '','') (join '','' (pa_bypass args)) = pa_bypass args"
    by (intro split_on_join) auto
  moreover have "value_word (join '','' (pa_bypass args))" using assms(1) by (intro value_join) auto
  ultimately show ?thesis using False by (simp add: set_switch_values set_option_values)
qed

section \<open>Lines of a file\<close>

lemma lines_from_last: "lines_from cur (s @ NL # t) = lines_from cur (s @ [NL]) @ lines_from [] t"
  by (induction s arbitrary: cur) auto

lemma strip_cr_id: "CR \<notin> set s \<Longrightarrow> strip_cr s = s"
  unfolding strip_cr_def by (metis last_in_set)

lemma join_lines_from:
  "CR \<notin> set cur \<Longrightarrow> CR \<notin> set s \<Longrightarrow> join [NL] (lines_from cur (s @ [NL])) = cur @ s"
proof (induction s arbitrary: cur)
  case Nil
  then show ?case by (auto simp: strip_cr_id)
next
  case (Cons c s)
  have rest: "lines_from d (s @ [NL]) \<noteq> []" for d
    by (induction s arbitrary: d) auto
  from Cons show ?case by (auto simp: strip_cr_id join_Cons [OF rest])
qed

lemma lines_from_sublist:
  "CR \<notin> set cur \<Longrightarrow> CR \<notin> set s \<Longrightarrow> line \<in> set (lines_from cur (s @ [NL])) \<Longrightarrow> sublist line (cur @ s)"
proof (induction s arbitrary: cur)
  case Nil
  then show ?case by (auto simp: strip_cr_id)
next
  case (Cons c s)
  show ?case
  proof (cases "c = NL")
    case True
    with Cons.prems consider "line = cur" | "line \<in> set (lines_from [] (s @ [NL]))"
      by (auto simp: strip_cr_id)
    then show ?thesis
    proof cases
      case 2
      with Cons.IH [of "[]"] Cons.prems have "sublist line s" by simp
      then show ?thesis using sublist_appendI [of s "cur @ [c]" "[]"] by (auto intro: sublist_order.order.trans)
    qed simp
  next
    case False
    with Cons.prems have "line \<in> set (lines_from (cur @ [c]) (s @ [NL]))" "CR \<notin> set (cur @ [c])" by auto
    with Cons.IH [of "cur @ [c]"] Cons.prems show ?thesis by simp
  qed
qed

lemma lines_from_unended:
  "CR \<notin> set s \<Longrightarrow> cur @ s \<noteq> [] \<Longrightarrow> s = [] \<or> last s \<noteq> NL \<Longrightarrow> CR \<notin> set cur
    \<Longrightarrow> lines_from cur (s @ [NL]) = lines_from cur s"
proof (induction s arbitrary: cur)
  case Nil
  then show ?case by (auto simp: strip_cr_id)
next
  case (Cons c s)
  then show ?case by (cases "s = []") auto
qed

text \<open>A text made to end its last line, and the lines it has then.\<close>

definition ended :: "str \<Rightarrow> str" where
  "ended s = (if s \<noteq> [] \<and> \<not> ends_with s [NL] then s @ [NL] else s)"

lemma ended_lines:
  assumes "CR \<notin> set s"
  shows "str_lines (ended s @ t) = str_lines s @ str_lines t"
    and "s \<noteq> [] \<Longrightarrow> join [NL] (str_lines s) @ [NL] = ended s"
    and "line \<in> set (str_lines s) \<Longrightarrow> sublist line s"
proof -
  consider "s = []" | u where "s = u @ [NL]" | "s \<noteq> []" "last s \<noteq> NL"
    by (metis append_butlast_last_id)
  note cases = this
  show "str_lines (ended s @ t) = str_lines s @ str_lines t"
  proof (cases rule: cases)
    case (2 u)
    then show ?thesis using lines_from_last [of "[]" u t]
      by (simp add: ended_def str_lines_def ends_with_suffix)
  next
    case 3
    then have "\<not> ends_with s [NL]" by (auto simp: ends_with_suffix suffix_def)
    with 3 lines_from_last [of "[]" s t] lines_from_unended [of s "[]"] assms show ?thesis
      by (simp add: ended_def str_lines_def)
  qed (simp add: ended_def str_lines_def)
  show "join [NL] (str_lines s) @ [NL] = ended s" if "s \<noteq> []"
  proof (cases rule: cases)
    case (2 u)
    then show ?thesis using join_lines_from [of "[]" u] assms
      by (simp add: ended_def str_lines_def ends_with_suffix)
  next
    case 3
    then have "\<not> ends_with s [NL]" by (auto simp: ends_with_suffix suffix_def)
    with 3 join_lines_from [of "[]" s] lines_from_unended [of s "[]"] assms show ?thesis
      by (simp add: ended_def str_lines_def)
  qed (use that in simp)
  show "sublist line s" if line: "line \<in> set (str_lines s)"
  proof (cases rule: cases)
    case 1
    with line show ?thesis by (simp add: str_lines_def)
  next
    case (2 u)
    then have "sublist line u" using lines_from_sublist [of "[]" u line] line assms
      by (simp add: str_lines_def)
    with 2 show ?thesis using sublist_appendI [of u "[]" "[NL]"] by (auto intro: sublist_order.order.trans)
  next
    case 3
    then show ?thesis using lines_from_sublist [of "[]" s line] lines_from_unended [of s "[]"] line assms
      by (simp add: str_lines_def)
  qed
qed

section \<open>Properties\<close>


text \<open>A key prefix that starts with a dash, which \<open>start\<close> itself may be given after an equals sign, does
  not get through: the daemon's command line has it as a word of its own, and is refused.\<close>

theorem dashed_prefix_stops_daemon:
  assumes "value_word dir" "starts_with (pa_key_prefix args) ''-''" "pa_key_prefix args \<noteq> ''-''"
  shows "read_args (to_run_args env args dir) default_args = None"
proof -
  have "\<not> value_word (pa_key_prefix args)" using assms(2,3) by (simp add: value_word_def)
  then have "read_args (''--key-prefix'' # pa_key_prefix args # rest) a = None" for rest a
    by (simp add: set_switch_values)
  then show ?thesis
    unfolding to_run_args_def append_Cons append_Nil
    by (simp add: read_option set_switch_values set_option_values assms(1)
          del: read_args.simps append.simps)
qed

text \<open>What \<open>stop\<close> does to the curl configuration undoes what \<open>start\<close> did: a file without the marker
  and without certificate settings of its own is left as it was, its last line ended, or removed
  where it has nothing but blank lines.\<close>

theorem curlrc_roundtrip:
  assumes "CR \<notin> set existing" "\<not> contains existing CURLRC_MARKER"
    and "\<forall>line \<in> set (str_lines existing). \<not> starts_with line ''cacert = ''"
    and "NL \<notin> set bundle" "CR \<notin> set bundle"
  shows "\<exists>c. write_curlrc True bundle (Some existing) = Write c
    \<and> clear_curlrc (Some c) = (if list_all (\<lambda>line. trim line = []) (str_lines existing) then Remove
        else Write (existing @ (if ends_with existing [NL] then [] else [NL])))"
proof -
  let ?added = "CURLRC_MARKER @ [NL] @ ''cacert = '' @ bundle @ [NL]"
  have plain: "NL \<notin> set CURLRC_MARKER" "CR \<notin> set CURLRC_MARKER"
    "NL \<notin> set (''cacert = '' @ bundle)" "CR \<notin> set (''cacert = '' @ bundle)"
    using assms(4,5) by (simp_all add: CURLRC_MARKER_def NL_def CR_def)
  have "str_lines ?added = [CURLRC_MARKER, ''cacert = '' @ bundle]"
    using lines_from_line [OF plain(1), of "[]" "''cacert = '' @ bundle @ [NL]"]
      lines_from_line [OF plain(3), of "[]" "[]"] strip_cr_id [OF plain(2)] strip_cr_id [OF plain(4)]
    by (simp add: str_lines_def)
  then have lines: "str_lines (ended existing @ ?added)
      = str_lines existing @ [CURLRC_MARKER, ''cacert = '' @ bundle]"
    using ended_lines(1) [OF assms(1)] by simp
  have "\<not> starts_with line CURLRC_MARKER" if "line \<in> set (str_lines existing)" for line
    using ended_lines(3) [OF assms(1) that] assms(2)
    by (auto simp: contains_sublist starts_with_prefix intro: sublist_order.order.trans prefix_imp_sublist)
  with assms(3) have "filter (\<lambda>line. \<not> starts_with line CURLRC_MARKER \<and> \<not> starts_with line ''cacert = '')
      (str_lines existing) = str_lines existing" by (simp add: filter_id_conv)
  moreover have "starts_with CURLRC_MARKER CURLRC_MARKER" "starts_with (''cacert = '' @ bundle) ''cacert = ''"
    by (simp_all add: starts_with_def)
  ultimately have kept: "filter (\<lambda>line. \<not> starts_with line CURLRC_MARKER \<and> \<not> starts_with line ''cacert = '')
      (str_lines (ended existing @ ?added)) = str_lines existing" unfolding lines by simp
  have "contains (ended existing @ ?added) CURLRC_MARKER"
    using contains_append [of CURLRC_MARKER CURLRC_MARKER "ended existing"] by (simp add: contains_sublist)
  then have clear: "clear_curlrc (Some (ended existing @ ?added))
      = (if list_all (\<lambda>line. trim line = []) (str_lines existing) then Remove
         else Write (join [NL] (str_lines existing) @ [NL]))"
    by (simp add: clear_curlrc_def kept del: append.simps append_assoc)
  have same: "join [NL] (str_lines existing) @ [NL] = existing @ (if ends_with existing [NL] then [] else [NL])"
    if "\<not> list_all (\<lambda>line. trim line = []) (str_lines existing)"
  proof -
    from that have "existing \<noteq> []" by (auto simp: str_lines_def)
    with ended_lines(2) [OF assms(1)] show ?thesis by (simp add: ended_def)
  qed
  have "write_curlrc True bundle (Some existing) = Write (ended existing @ ?added)"
    using assms(2) by (simp add: write_curlrc_def ended_def Let_def)
  with clear same show ?thesis by simp
qed

text \<open>A certificate setting the user had is lost: \<open>stop\<close> removes every line of that form.\<close>

theorem clear_curlrc_drops_user_cacert:
  "clear_curlrc (Some (''cacert = mine'' @ [NL] @ CURLRC_MARKER @ [NL] @ ''cacert = b'' @ [NL])) = Remove"
  by (simp add: clear_curlrc_def CURLRC_MARKER_def str_lines_def NL_def CR_def strip_cr_def starts_with_def)

section \<open>Witnesses\<close>


theorem dashed_prefix_stops_daemon_witness:
  "read_args (to_run_args (\<lambda>_. None) (default_args\<lparr>pa_key_prefix := ''-x''\<rparr>) ''d'') default_args = None"
  by (rule dashed_prefix_stops_daemon) (simp_all add: value_word_def starts_with_def)

theorem curlrc_roundtrip_witness:
  "\<exists>c. write_curlrc True ''b'' (Some ''silent'') = Write c \<and> clear_curlrc (Some c) = Write (''silent'' @ [NL])"
proof -
  have lines: "str_lines ''silent'' = [''silent'']" by (simp add: str_lines_def NL_def)
  have "trim ''silent'' = ''silent''" by (rule trim_id) (simp_all add: solid_def ws1_def)
  then show ?thesis
    using curlrc_roundtrip [of "''silent''" "''b''"] lines
    by (simp add: CR_def NL_def CURLRC_MARKER_def starts_with_def ends_with_def)
qed

end
