(* ===== verification/Cli.thy ===== *)
theory Cli
  imports Args Ca
begin

text \<open>
  The commands (\<open>src/src/main.rs\<close>) as the operating system sees them: the loops that wait, bounded
  child processes, the system's trust store, \<open>start\<close> and \<open>stop\<close>. The operating system is the record
  \<open>os\<close>, time is in milliseconds.
\<close>

section \<open>Waiting\<close>

text \<open>A child process; \<open>try_wait\<close> on it says whether it has exited, and how.\<close>

datatype 'e try_wait = Exited 'e | Running | WaitFailed

record ('w, 'e) child =
  child_spawn :: "'w \<Rightarrow> bool \<times> 'w"
  child_try_wait :: "'w \<Rightarrow> 'e try_wait"
  child_kill :: "'w \<Rightarrow> 'w" \<comment> \<open>\<open>kill\<close> and \<open>wait\<close>\<close>

record 'w os =
  os_env :: "str \<Rightarrow> str option"
  os_read :: "str \<Rightarrow> 'w \<Rightarrow> str option" \<comment> \<open>\<open>read_to_string\<close>\<close>
  os_exists :: "str \<Rightarrow> 'w \<Rightarrow> bool"
  os_write :: "str \<Rightarrow> str \<Rightarrow> 'w \<Rightarrow> bool \<times> 'w"
  os_remove_file :: "str \<Rightarrow> 'w \<Rightarrow> 'w"
  os_remove_dir_all :: "str \<Rightarrow> 'w \<Rightarrow> 'w"
  os_create_dir_all :: "str \<Rightarrow> 'w \<Rightarrow> bool \<times> 'w"
  os_create :: "str \<Rightarrow> 'w \<Rightarrow> bool \<times> 'w" \<comment> \<open>\<open>File::create\<close>\<close>
  os_try_clone :: "str \<Rightarrow> 'w \<Rightarrow> bool" \<comment> \<open>a second handle on an open file\<close>
  os_open_append :: "str \<Rightarrow> 'w \<Rightarrow> bool \<times> 'w"
  os_append :: "str \<Rightarrow> str \<Rightarrow> 'w \<Rightarrow> bool \<times> 'w"
  os_now :: "'w \<Rightarrow> nat"
  os_sleep :: "nat \<Rightarrow> 'w \<Rightarrow> 'w"
  os_client :: bool \<comment> \<open>whether an HTTP client can be built\<close>
  os_post :: "str \<Rightarrow> 'w \<Rightarrow> 'w" \<comment> \<open>a request whose answer is not looked at\<close>
  os_exe :: "str option" \<comment> \<open>\<open>current_exe\<close>\<close>
  os_spawn :: "str \<Rightarrow> str list \<Rightarrow> str \<Rightarrow> 'w \<Rightarrow> bool \<times> 'w"
    \<comment> \<open>program, arguments, the file its output goes to\<close>
  os_command :: "str \<Rightarrow> str list \<Rightarrow> ('w, bool) child" \<comment> \<open>whose status is whether it succeeded\<close>

partial_function (option) wait_until_state ::
  "('w, 'z) os_scheme \<Rightarrow> (str \<Rightarrow> 's option) \<Rightarrow> str \<Rightarrow> nat \<Rightarrow> 'w \<Rightarrow> ('s res \<times> 'w) option" where
  "wait_until_state M parse path deadline w =
     (if os_now M w < deadline then
        (case Option.bind (os_read M path w) parse of
           Some st \<Rightarrow> Some (Ok st, w)
         | None \<Rightarrow> wait_until_state M parse path deadline (os_sleep M 50 w))
      else Some (Err (''timed out waiting for '' @ path), w))"

definition wait_for_state ::
  "('w, 'z) os_scheme \<Rightarrow> (str \<Rightarrow> 's option) \<Rightarrow> str \<Rightarrow> nat \<Rightarrow> 'w \<Rightarrow> ('s res \<times> 'w) option" where
  "wait_for_state M parse path timeout w = wait_until_state M parse path (os_now M w + timeout) w"

partial_function (option) run_until ::
  "('w, 'z) os_scheme \<Rightarrow> ('w, 'e) child \<Rightarrow> nat \<Rightarrow> 'w \<Rightarrow> ('e option \<times> 'w) option" where
  "run_until M P deadline w =
     (case child_try_wait P w of
        Exited status \<Rightarrow> Some (Some status, w)
      | Running \<Rightarrow>
          if deadline \<le> os_now M w then Some (None, child_kill P w)
          else run_until M P deadline (os_sleep M 100 w)
      | WaitFailed \<Rightarrow> Some (None, w))"

definition run_bounded ::
  "('w, 'z) os_scheme \<Rightarrow> ('w, 'e) child \<Rightarrow> nat \<Rightarrow> 'w \<Rightarrow> ('e option \<times> 'w) option" where
  "run_bounded M P limit w =
     (case child_spawn P w of
        (False, w) \<Rightarrow> Some (None, w)
      | (True, w) \<Rightarrow> run_until M P (os_now M w + limit) w)"

partial_function (option) wait_summary :: "('w, 'z) os_scheme \<Rightarrow> str \<Rightarrow> nat \<Rightarrow> 'w \<Rightarrow> 'w option" where
  "wait_summary M path deadline w =
     (if os_now M w < deadline \<and> \<not> os_exists M path w
      then wait_summary M path deadline (os_sleep M 200 w) else Some w)"

section \<open>The system's trust store\<close>

definition KEYCHAIN_TIMEOUT :: nat where
  "KEYCHAIN_TIMEOUT = 5 * 1000"

definition may_touch_system_trust :: "bool \<Rightarrow> (str \<Rightarrow> str option) \<Rightarrow> bool" where
  "may_touch_system_trust macos env \<longleftrightarrow> macos \<and> env ''GITHUB_ACTIONS'' \<noteq> None"

text \<open>Both give the lines they print; \<open>None\<close> is a wait that never ends.\<close>

definition install_system_trust ::
  "('w, 'z) os_scheme \<Rightarrow> bool \<Rightarrow> state \<Rightarrow> 'w \<Rightarrow> (str list \<times> 'w) option" where
  "install_system_trust M macos st w =
     (if \<not> may_touch_system_trust macos (os_env M) then Some ([], w)
      else
        let command = os_command M ''sudo''
              ([''-n'', ''security'', ''add-trusted-cert'', ''-d'', ''-r'', ''trustRoot'', ''-k'']
               @ [''/Library/Keychains/System.keychain''] @ [stt_ca_path st]) in
        (case run_bounded M command KEYCHAIN_TIMEOUT w of
           None \<Rightarrow> None
         | Some (Some True, w) \<Rightarrow> Some ([''cicache: added the CA to the system keychain''], w)
         | Some (Some False, w) \<Rightarrow>
             Some ([''::warning title=cicache::could not add the CA to the system keychain; tools that ''
               @ ''verify through the platform will not reach the proxy''], w)
         | Some (None, w) \<Rightarrow>
             Some ([''::warning title=cicache::security(1) did not finish; skipping''], w)))"

definition remove_system_trust :: "('w, 'z) os_scheme \<Rightarrow> bool \<Rightarrow> 'w \<Rightarrow> (str list \<times> 'w) option" where
  "remove_system_trust M macos w =
     (if \<not> may_touch_system_trust macos (os_env M) then Some ([], w)
      else
        let delete = os_command M ''sudo''
              ([''-n'', ''security'', ''delete-certificate'', ''-c'', CA_COMMON_NAME, ''-t'']
               @ [''/Library/Keychains/System.keychain'']) in
        (case run_bounded M delete KEYCHAIN_TIMEOUT w of
           None \<Rightarrow> None
         | Some (None, w) \<Rightarrow>
             Some ([''::warning title=cicache::could not remove \"'' @ CA_COMMON_NAME @ ''\" from the system ''
               @ ''keychain; on a self-hosted runner, delete it manually''], w)
         | Some (Some status, w) \<Rightarrow> Some ([], w)))"

section \<open>Start\<close>

definition apply_change :: "('w, 'z) os_scheme \<Rightarrow> str \<Rightarrow> file_change \<Rightarrow> 'w \<Rightarrow> bool \<times> 'w" where
  "apply_change M path change w =
     (case change of
        Keep \<Rightarrow> (True, w)
      | Write s \<Rightarrow> os_write M path s w
      | Remove \<Rightarrow> (True, os_remove_file M path w))"

text \<open>\<open>write_curlrc\<close> with the file it reads and writes, and the line printed when that fails.\<close>

definition configure_curl :: "('w, 'z) os_scheme \<Rightarrow> bool \<Rightarrow> state \<Rightarrow> 'w \<Rightarrow> str list \<times> 'w" where
  "configure_curl M macos st w =
     (case curlrc_path (os_env M) of
        None \<Rightarrow> ([], w)
      | Some path \<Rightarrow>
          (case apply_change M path (write_curlrc macos (stt_bundle_path st) (os_read M path w)) w of
             (True, w) \<Rightarrow> ([], w)
           | (False, w) \<Rightarrow>
               ([''cicache: could not configure curl for Homebrew: writing ~/.curlrc''], w)))"

definition restore_curl :: "('w, 'z) os_scheme \<Rightarrow> 'w \<Rightarrow> 'w" where
  "restore_curl M w =
     (case curlrc_path (os_env M) of
        None \<Rightarrow> w
      | Some path \<Rightarrow> snd (apply_change M path (clear_curlrc (os_read M path w)) w))"

fun append_lines :: "('w, 'z) os_scheme \<Rightarrow> str \<Rightarrow> str list \<Rightarrow> 'w \<Rightarrow> unit res \<times> 'w" where
  "append_lines M path [] w = (Ok (), w)"
| "append_lines M path (line # lines) w =
     (case os_append M path line w of
        (True, w) \<Rightarrow> append_lines M path lines w
      | (False, w) \<Rightarrow> (Err ''write failed'', w))"

definition do_export :: "('w, 'z) os_scheme \<Rightarrow> export \<Rightarrow> 'w \<Rightarrow> str list res \<times> 'w" where
  "do_export M e w =
     (case e of
        AppendTo path lines \<Rightarrow>
          (case os_open_append M path w of
             (True, w) \<Rightarrow>
               (case append_lines M path lines w of
                  (Ok _, w) \<Rightarrow> (Ok [], w) | (Err e, w) \<Rightarrow> (Err e, w) | (Panic, w) \<Rightarrow> (Panic, w))
           | (False, w) \<Rightarrow> (Err ''opening $GITHUB_ENV'', w))
      | PrintLines lines \<Rightarrow> (Ok lines, w))"

definition hint :: "(str \<Rightarrow> str option) \<Rightarrow> str list" where
  "hint env =
     (if env ''ACTIONS_RESULTS_URL'' \<noteq> None then []
      else if env ''GITHUB_ACTIONS'' \<noteq> None then [''::warning title=cicache::ACTIONS_RESULTS_URL is not set, so nothing will be '' @
        ''stored beyond this job. Export the cache-service variables before starting the '' @
        ''proxy, or use the composite action, which does it for you.'']
      else [''cicache: no Actions cache service in the environment; local cache only''])"

text \<open>Launching the daemon: the steps before \<open>start\<close> waits for it.\<close>

definition launch :: "('w, 'z) os_scheme \<Rightarrow> proxy_args \<Rightarrow> str \<Rightarrow> 'w \<Rightarrow> unit res \<times> 'w" where
  "launch M args dir w =
     (case os_create_dir_all M (path_join dir ''objects'') w of
        (False, w) \<Rightarrow> (Err ''creating state directory'', w)
      | (True, w) \<Rightarrow>
          let daemon_log = path_join dir ''daemon.log'' in
          (case os_exe M of
             None \<Rightarrow> (Err ''locating own executable'', w)
           | Some exe \<Rightarrow>
               (case os_create M daemon_log w of
                  (False, w) \<Rightarrow> (Err ''creating daemon log'', w)
                | (True, w) \<Rightarrow>
                    if \<not> os_try_clone M daemon_log w then (Err ''cloning the file handle'', w)
                    else
                      (case os_spawn M exe (''run'' # to_run_args (os_env M) args dir) daemon_log w of
                         (False, w) \<Rightarrow> (Err ''spawning proxy daemon'', w)
                       | (True, w) \<Rightarrow> (Ok (), w)))))"

text \<open>The value \<open>None\<close> is a wait that never ends; what a failing \<open>start\<close> printed is not kept.\<close>

definition start ::
  "('w, 'z) os_scheme \<Rightarrow> bool \<Rightarrow> (str \<Rightarrow> state option) \<Rightarrow> str \<Rightarrow> proxy_args \<Rightarrow> 'w
     \<Rightarrow> (str list res \<times> 'w) option" where
  "start M macos parse_state temp_dir args w =
     (let dir = resolve_state_dir (os_env M) temp_dir (pa_state_dir args);
          state_path = path_join dir ''state.json'' in
      if os_exists M state_path w
      then Some (Err (state_path @ '' already exists; a proxy may still be running''), w)
      else case launch M args dir w of
        (Err e, w) \<Rightarrow> Some (Err e, w)
      | (Panic, w) \<Rightarrow> Some (Panic, w)
      | (Ok _, w) \<Rightarrow>
          (case wait_for_state M parse_state state_path (20 * 1000) w of
             None \<Rightarrow> None
           | Some (Err e, w) \<Rightarrow>
               Some (Err (''proxy did not start; see '' @ path_join dir ''daemon.log''), w)
           | Some (Panic, w) \<Rightarrow> Some (Panic, w)
           | Some (Ok st, w) \<Rightarrow>
               (case configure_curl M macos st w of
                  (curl, w) \<Rightarrow>
                    (case install_system_trust M macos st w of
                       None \<Rightarrow> None
                     | Some (trust, w) \<Rightarrow>
                         (case do_export M (export_environment (os_env M) macos st (pa_no_github_env args)) w of
                            (Ok lines, w) \<Rightarrow>
                              Some (Ok (curl @ trust @ lines
                                @ [''cicache listening on 127.0.0.1:'' @ dec (unat (stt_port st))
                                   @ '' (CA at '' @ stt_ca_path st @ '')'']
                                @ hint (os_env M)), w)
                          | (Err e, w) \<Rightarrow> Some (Err e, w)
                          | (Panic, w) \<Rightarrow> Some (Panic, w))))))"

section \<open>Stop\<close>

definition print_daemon_log :: "str option \<Rightarrow> str list" where
  "print_daemon_log daemon_log =
     (case daemon_log of
        None \<Rightarrow> []
      | Some log \<Rightarrow>
          let tail = take 20 (rev (str_lines log)) in
          if tail = [] then [] else [''::group::cicache daemon log''] @ rev tail @ [''::endgroup::''])"

text \<open>The warning a summary calls for, if any.\<close>

datatype warning = NoneReached u64 | SomeFailed u64 u64

definition stop_warning :: "summary \<Rightarrow> warning option" where
  "stop_warning sm =
     (if sum_stored sm > 0 \<and> sum_entries_stored sm = 0 \<and> sum_packed sm = 0
      then Some (NoneReached (sum_stored sm))
      else if sum_uploads_failed sm > 0
      then Some (SomeFailed (sum_uploads_failed sm) (sum_uploads_failed sm + sum_entries_stored sm))
      else None)"

fun show_warning :: "warning \<Rightarrow> str" where
  "show_warning (NoneReached n) =
     ''::warning title=cicache::'' @ dec (unat n) @ '' responses were eligible to cache but none ''
     @ ''reached the cache service; later jobs will start cold.''"
| "show_warning (SomeFailed m n) =
     ''::warning title=cicache::'' @ dec (unat m) @ '' of '' @ dec (unat n)
     @ '' objects failed to reach the cache service.''"

definition stop_report :: "(str \<Rightarrow> summary option) \<Rightarrow> str option \<Rightarrow> str option \<Rightarrow> str list res" where
  "stop_report parse summary_file daemon_log =
     (case summary_file of
        Some contents \<Rightarrow>
          (case parse contents of
             None \<Rightarrow> Err ''summary.json''
           | Some sm \<Rightarrow>
               Ok ([render sm] @
                 (case stop_warning sm of
                    None \<Rightarrow> []
                  | Some wn \<Rightarrow> show_warning wn # print_daemon_log daemon_log)))
      | None \<Rightarrow> Ok (''cicache: proxy did not report a summary before the timeout'' # print_daemon_log daemon_log))"

text \<open>The arguments of \<open>stop\<close>.\<close>

record stop_args =
  sa_state_dir :: "str option"
  sa_quiet :: bool
  sa_timeout_secs :: u64

definition default_stop_args :: stop_args where
  "default_stop_args = \<lparr>sa_state_dir = None, sa_quiet = False, sa_timeout_secs = 180\<rparr>"

definition stop ::
  "('w, 'z) os_scheme \<Rightarrow> bool \<Rightarrow> (str \<Rightarrow> state option) \<Rightarrow> (str \<Rightarrow> summary option) \<Rightarrow> str \<Rightarrow> stop_args \<Rightarrow> 'w
     \<Rightarrow> (str list res \<times> 'w) option" where
  "stop M macos parse_state parse_summary temp_dir args w =
     (let dir = resolve_state_dir (os_env M) temp_dir (sa_state_dir args);
          state_path = path_join dir ''state.json'';
          summary_path = path_join dir ''summary.json'' in
      case os_read M state_path w of
        None \<Rightarrow> Some (Ok [''cicache: nothing to stop''], w)
      | Some contents \<Rightarrow>
          (case parse_state contents of
             None \<Rightarrow> Some (Err ''reading state.json'', w)
           | Some st \<Rightarrow>
               if \<not> os_client M then Some (Err ''builder error'', w)
               else
                 let w = os_post M (''http://127.0.0.1:'' @ dec (unat (stt_port st)) @ ''/__cicache/shutdown'') w in
                 (case wait_summary M summary_path (os_now M w + unat (sa_timeout_secs args) * 1000) w of
                    None \<Rightarrow> None
                  | Some w \<Rightarrow>
                      let requests = (if sa_quiet args then []
                            else case os_read M (stt_log_path st) w of
                              None \<Rightarrow> [] | Some log \<Rightarrow> [''::group::cicache requests'', log, ''::endgroup::'']) in
                      (case stop_report parse_summary (os_read M summary_path w)
                          (os_read M (path_join dir ''daemon.log'') w) of
                         Ok report \<Rightarrow>
                           (case remove_system_trust M macos (restore_curl M w) of
                              None \<Rightarrow> None
                            | Some (trust, w) \<Rightarrow>
                                Some (Ok (requests @ report @ trust),
                                  os_remove_file M state_path
                                    (os_remove_dir_all M (path_join dir ''objects'') w)))
                       | Err e \<Rightarrow> Some (Err e, w)
                       | Panic \<Rightarrow> Some (Panic, w)))))"

section \<open>Waiting ends\<close>

text \<open>The clock: sleeping takes at least as long as asked for.\<close>

definition clock_law :: "('w, 'z) os_scheme \<Rightarrow> bool" where
  "clock_law M \<longleftrightarrow> (\<forall>n w. os_now M w + n \<le> os_now M (os_sleep M n w))"

lemma wait_until_state_ends:
  assumes "clock_law M"
  shows "\<exists>r w'. wait_until_state M parse path deadline w = Some (r, w')
    \<and> (case r of Ok st \<Rightarrow> \<exists>contents. os_read M path w' = Some contents \<and> parse contents = Some st
       | Err e \<Rightarrow> deadline \<le> os_now M w' | Panic \<Rightarrow> False)"
proof (induction "deadline - os_now M w" arbitrary: w rule: less_induct)
  case less
  show ?case
  proof (cases "os_now M w < deadline \<and> Option.bind (os_read M path w) parse = None")
    case True
    have "os_now M w + 50 \<le> os_now M (os_sleep M 50 w)" using assms by (simp add: clock_law_def)
    with True have "deadline - os_now M (os_sleep M 50 w) < deadline - os_now M w" by linarith
    from less [OF this] True show ?thesis by (subst wait_until_state.simps) simp
  next
    case False
    then show ?thesis
      by (subst wait_until_state.simps) (auto split: option.splits bind_splits)
  qed
qed

lemma run_until_ends:
  assumes "clock_law M"
  shows "\<exists>r w'. run_until M P deadline w = Some (r, w')"
proof (induction "deadline - os_now M w" arbitrary: w rule: less_induct)
  case less
  show ?case
  proof (cases "child_try_wait P w = Running \<and> os_now M w < deadline")
    case True
    have "os_now M w + 100 \<le> os_now M (os_sleep M 100 w)" using assms by (simp add: clock_law_def)
    with True have "deadline - os_now M (os_sleep M 100 w) < deadline - os_now M w" by linarith
    from less [OF this] True show ?thesis by (subst run_until.simps) simp
  next
    case False
    then show ?thesis by (subst run_until.simps) (auto split: try_wait.splits)
  qed
qed

lemma wait_summary_ends:
  assumes "clock_law M"
  shows "\<exists>w'. wait_summary M path deadline w = Some w'
    \<and> (os_exists M path w' \<or> deadline \<le> os_now M w')"
proof (induction "deadline - os_now M w" arbitrary: w rule: less_induct)
  case less
  show ?case
  proof (cases "os_now M w < deadline \<and> \<not> os_exists M path w")
    case True
    have "os_now M w + 200 \<le> os_now M (os_sleep M 200 w)" using assms by (simp add: clock_law_def)
    with True have "deadline - os_now M (os_sleep M 200 w) < deadline - os_now M w" by linarith
    from less [OF this] True show ?thesis by (subst wait_summary.simps) simp
  next
    case False
    then show ?thesis by (subst wait_summary.simps) auto
  qed
qed

section \<open>Properties\<close>

text \<open>\<open>start\<close> gives up after its time and not before: waiting for the daemon always returns, with a
  state the daemon wrote or, the clock past the deadline, with an error.\<close>

theorem wait_for_state_returns:
  assumes "clock_law M"
  shows "\<exists>r w'. wait_for_state M parse path timeout w = Some (r, w')
    \<and> (case r of Ok st \<Rightarrow> \<exists>contents. os_read M path w' = Some contents \<and> parse contents = Some st
       | Err e \<Rightarrow> os_now M w + timeout \<le> os_now M w' | Panic \<Rightarrow> False)"
  unfolding wait_for_state_def by (rule wait_until_state_ends [OF assms])

text \<open>A bounded command always comes back, whatever its process does.\<close>

theorem run_bounded_returns:
  assumes "clock_law M"
  shows "\<exists>r w'. run_bounded M P limit w = Some (r, w')"
  using run_until_ends [OF assms] by (auto simp: run_bounded_def split: prod.split bool.split)

lemma install_system_trust_returns:
  assumes "clock_law M"
  shows "\<exists>lines w'. install_system_trust M macos st w = Some (lines, w')"
proof (cases "may_touch_system_trust macos (os_env M)")
  case True
  let ?command = "os_command M ''sudo'' ([''-n'', ''security'', ''add-trusted-cert'', ''-d'', ''-r'', ''trustRoot'',
      ''-k''] @ [''/Library/Keychains/System.keychain''] @ [stt_ca_path st])"
  obtain r w1 where "run_bounded M ?command KEYCHAIN_TIMEOUT w = Some (r, w1)"
    using run_bounded_returns [OF assms] by blast
  with True show ?thesis
    unfolding install_system_trust_def Let_def by (simp split: option.split bool.split)
qed (simp add: install_system_trust_def)

lemma remove_system_trust_returns:
  assumes "clock_law M"
  shows "\<exists>lines w'. remove_system_trust M macos w = Some (lines, w')"
proof (cases "may_touch_system_trust macos (os_env M)")
  case True
  let ?delete = "os_command M ''sudo'' ([''-n'', ''security'', ''delete-certificate'', ''-c'', CA_COMMON_NAME, ''-t'']
      @ [''/Library/Keychains/System.keychain''])"
  obtain r w1 where "run_bounded M ?delete KEYCHAIN_TIMEOUT w = Some (r, w1)"
    using run_bounded_returns [OF assms] by blast
  with True show ?thesis
    unfolding remove_system_trust_def Let_def by (simp split: option.split)
qed (simp add: remove_system_trust_def)

lemma start_returns:
  assumes "clock_law M"
  shows "\<exists>r w'. start M macos parse_state temp_dir args w = Some (r, w')"
proof -
  let ?dir = "resolve_state_dir (os_env M) temp_dir (pa_state_dir args)"
  let ?path = "path_join ?dir ''state.json''"
  obtain l w1 where launched: "launch M args ?dir w = (l, w1)" by fastforce
  obtain r w2 where waited: "wait_for_state M parse_state ?path (20 * 1000) w1 = Some (r, w2)"
    using wait_for_state_returns [OF assms] by blast
  show ?thesis
  proof (cases "os_exists M ?path w \<or> (\<forall>u. l \<noteq> Ok u) \<or> (\<forall>st. r \<noteq> Ok st)")
    case True
    with launched waited show ?thesis
      by (cases l; cases r) (auto simp: start_def Let_def)
  next
    case False
    then obtain st where ok: "l = Ok ()" "r = Ok st" "\<not> os_exists M ?path w" by auto
    obtain curl w3 where curl: "configure_curl M macos st w2 = (curl, w3)" by fastforce
    obtain trust w4 where trust: "install_system_trust M macos st w3 = Some (trust, w4)"
      using install_system_trust_returns [OF assms] by blast
    obtain e w5 where export:
      "do_export M (export_environment (os_env M) macos st (pa_no_github_env args)) w4 = (e, w5)" by fastforce
    from launched waited ok curl trust export show ?thesis
      by (cases e) (simp_all add: start_def Let_def)
  qed
qed

lemma stop_returns:
  assumes "clock_law M"
  shows "\<exists>r w'. stop M macos parse_state parse_summary temp_dir args w = Some (r, w')"
proof -
  let ?dir = "resolve_state_dir (os_env M) temp_dir (sa_state_dir args)"
  let ?summary = "path_join ?dir ''summary.json''"
  show ?thesis
  proof (cases "Option.bind (os_read M (path_join ?dir ''state.json'') w) parse_state")
    case None
    then show ?thesis by (auto simp: stop_def Let_def split: option.splits bind_splits)
  next
    case (Some st)
    let ?w = "os_post M (''http://127.0.0.1:'' @ dec (unat (stt_port st)) @ ''/__cicache/shutdown'') w"
    obtain w1 where waited: "wait_summary M ?summary (os_now M ?w + unat (sa_timeout_secs args) * 1000) ?w = Some w1"
      using wait_summary_ends [OF assms] by blast
    obtain trust w2 where trust: "remove_system_trust M macos (restore_curl M w1) = Some (trust, w2)"
      using remove_system_trust_returns [OF assms] by blast
    from Some waited trust show ?thesis
      by (cases "stop_report parse_summary (os_read M ?summary w1) (os_read M (path_join ?dir ''daemon.log'') w1)")
        (auto simp: stop_def Let_def split: bind_splits)
  qed
qed



text \<open>The keychain is left alone outside macOS and outside CI: neither command of the trust store runs
  a process or touches anything there.\<close>

theorem keychain_only_on_runners:
  assumes "\<not> (macos \<and> os_env M ''GITHUB_ACTIONS'' \<noteq> None)"
  shows "install_system_trust M macos st w = Some ([], w) \<and> remove_system_trust M macos w = Some ([], w)"
  using assms by (auto simp: install_system_trust_def remove_system_trust_def may_touch_system_trust_def)

text \<open>A summary left over from an earlier run is not waited for: the wait ends at once.\<close>

theorem stale_summary_ends_wait:
  assumes "os_exists M path w"
  shows "wait_summary M path deadline w = Some w"
  using assms by (subst wait_summary.simps) simp

section \<open>Witnesses\<close>

text \<open>A machine of a clock and files, whose daemon has written its state and answers a shutdown.\<close>

type_synonym machine = "nat \<times> (str \<times> str option) list"

definition file_of :: "str \<Rightarrow> machine \<Rightarrow> str option" where
  "file_of p m = (case map_of (snd m) p of None \<Rightarrow> None | Some c \<Rightarrow> c)"

definition demo_os :: "machine os" where
  "demo_os =
     \<lparr>os_env = (\<lambda>_. None), os_read = file_of, os_exists = (\<lambda>p m. file_of p m \<noteq> None),
      os_write = (\<lambda>p c m. (True, (fst m, (p, Some c) # snd m))),
      os_remove_file = (\<lambda>p m. (fst m, (p, None) # snd m)), os_remove_dir_all = (\<lambda>p m. m),
      os_create_dir_all = (\<lambda>p m. (True, m)), os_create = (\<lambda>p m. (True, (fst m, (p, Some []) # snd m))),
      os_try_clone = (\<lambda>p m. True), os_open_append = (\<lambda>p m. (True, m)), os_append = (\<lambda>p c m. (True, m)),
      os_now = fst, os_sleep = (\<lambda>n m. (fst m + n, snd m)), os_client = True, os_post = (\<lambda>url m. m),
      os_exe = Some ''cicache'', os_spawn = (\<lambda>exe args out m. (True, m)),
      os_command = (\<lambda>exe args. \<lparr>child_spawn = (\<lambda>m. (True, m)), child_try_wait = (\<lambda>m. Running),
        child_kill = (\<lambda>m. m)\<rparr>)\<rparr>"

definition demo_state :: state where
  "demo_state = \<lparr>stt_pid = 1, stt_port = 80, stt_ca_path = ''c'', stt_bundle_path = ''b'', stt_log_path = ''l''\<rparr>"

lemma demo_clock: "clock_law demo_os"
  by (simp add: clock_law_def demo_os_def)

theorem wait_for_state_returns_witness:
  "\<exists>r w'. wait_for_state demo_os (\<lambda>c. None :: state option) ''state.json'' 20000 (0, []) = Some (r, w')
    \<and> (\<exists>e. r = Err e) \<and> 20000 \<le> fst w'"
proof -
  have now: "os_now demo_os m = fst m" for m by (simp add: demo_os_def)
  from wait_for_state_returns [OF demo_clock, of "\<lambda>c. None :: state option" "''state.json''" 20000 "(0, [])"]
  obtain r w' where "wait_for_state demo_os (\<lambda>c. None :: state option) ''state.json'' 20000 (0, []) = Some (r, w')"
    "case r of Ok st \<Rightarrow> False | Err e \<Rightarrow> 20000 \<le> fst w' | Panic \<Rightarrow> False"
    by (auto simp: now cong: res.case_cong)
  then show ?thesis by (cases r) auto
qed



theorem keychain_only_on_runners_witness:
  "install_system_trust demo_os True demo_state (0, []) = Some ([], (0, []))"
  using keychain_only_on_runners [of True demo_os demo_state "(0, [])"] by (simp add: demo_os_def)

end
