(* ===== verification/Steps.thy ===== *)
theory Steps
  imports Proxy
begin

text \<open>
  A request one suspension at a time (\<open>src/src/proxy.rs\<close>, \<open>src/src/store.rs\<close>). The handlers of \<open>Proxy\<close>
  run a request in one go; here the same request is a state machine whose steps end where the code
  may be suspended or where it touches state that other tasks share. Run without interruption it
  is the handler.
\<close>

section \<open>A request, one step at a time\<close>

text \<open>
  Where a request is. Each step makes one call to the outside or one access to the shared state, a
  call of the cache service with its flag being one step. A state has what the code keeps in local
  variables: the URL, the key, bytes, elapsed time, the response ready to be sent.
\<close>

datatype ('u, 'h) work =
  Arrived
| Collecting 'u
| Forwarding 'u bytes reject
| Reading 'u str
| Checking 'u str
| Asking 'u str
| Keeping 'u str bytes
| Missing 'u str
| Decoding 'u str bytes
| Fetching 'u str
| Judging 'u str "'h upstream" u64
| Queueing 'u str bytes u64 u64 "'h response res"
| Writing 'u str bytes u64 u64 "'h response res"
| Filing 'u str bytes u64 u64 "'h response res"
| Counting outcome str str u64 u64 "'h response res"
| Finished "'h response res"

text \<open>What \<open>dispatch\<close> does with an error of the handler.\<close>

definition failed :: "('u, 'h) crates \<Rightarrow> 'u \<Rightarrow> str \<Rightarrow> ('u, 'h) work" where
  "failed L url msg =
     Counting (Error msg) ''GET'' (url_as_str (lib_url L) url) 0 0 (Ok (bad_gateway (lib_headers L) msg))"

definition declared_length :: "'h upstream \<Rightarrow> u64" where
  "declared_length up = (case up_content_length up of None \<Rightarrow> 0 | Some n \<Rightarrow> n)"

fun advance ::
  "('u, 'h) crates \<Rightarrow> ('w, 'h, 'z) web_scheme \<Rightarrow> 'h request \<Rightarrow> str option \<Rightarrow> ('u, 'h) work \<Rightarrow> proxy \<Rightarrow> 'w
     \<Rightarrow> ('u, 'h) work \<times> proxy \<times> 'w" where
  "advance L N req tunnel Arrived p w =
     (if tunnel = None \<and> req_method req = ''CONNECT''
      then (Finished (Ok (fst (connect L p req))), p, w)
      else if tunnel = None \<and> req_authority req = None
      then (case control L p req of (response, p) \<Rightarrow> (Finished (Ok response), p, w))
      else case absolute_url (lib_url L) req tunnel of
        Inl err \<Rightarrow> (Finished (Ok (bad_request (lib_headers L) err)), p, w)
      | Inr url \<Rightarrow> (Collecting url, p, w))"
| "advance L N req tunnel (Collecting url) p w =
     (case req_body req of
        Inl err \<Rightarrow> (failed L url err, p, w)
      | Inr body \<Rightarrow>
          (case request_eligible (px_policy p) (lib_url L) (lib_headers L) (req_method req) url
              (req_headers req) of
             Inl reject \<Rightarrow> (Forwarding url body reject, p, w)
           | Inr _ \<Rightarrow>
               (Reading url (policy_key (px_policy p) (lib_url L) (lib_sha256 L) (lib_hex L) url), p, w)))"
| "advance L N req tunnel (Forwarding url body reject) p w =
     (let H = lib_headers L; link = url_as_str (lib_url L) url in
      case web_request N (px_forwarder p) (req_method req) link (sanitize H (req_headers req)) body w of
        (Inl err, w') \<Rightarrow> (failed L url err, p, w')
      | (Inr up, w') \<Rightarrow>
          (Counting (Pass (reject_as_str reject)) (req_method req) link (declared_length up) (elapsed N w w')
             (Ok (stream_response H (up_status up) (sanitize H (up_headers up)) up ''PASS'')), p, w'))"
| "advance L N req tunnel (Reading url k) p w =
     (case sys_read N (store_path (px_store p) k) w of
        Some raw \<Rightarrow> (Decoding url k raw, p, w)
      | None \<Rightarrow> (Checking url k, p, w))"
| "advance L N req tunnel (Checking url k) p w =
     (if sto_gha (px_store p) = None \<or> k \<notin> sto_index (px_store p) \<or> k \<in> sto_remote_misses (px_store p)
      then (Fetching url k, p, w) else (Asking url k, p, w))"
| "advance L N req tunnel (Asking url k) p w =
     (case sto_gha (px_store p) of
        None \<Rightarrow> (Fetching url k, p, w)
      | Some g \<Rightarrow>
          (case gha_get N g k w of
             (r, g, w) \<Rightarrow>
               let p = p\<lparr>px_store := (px_store p)\<lparr>sto_gha := Some g\<rparr>\<rparr> in
               (case r of
                  Inr (Some raw) \<Rightarrow> (Keeping url k raw, p, w)
                | Inr None \<Rightarrow> (Missing url k, p, w)
                | Inl err \<Rightarrow> (Missing url k, p, w))))"
| "advance L N req tunnel (Keeping url k raw) p w =
     (Decoding url k raw, p, snd (sys_write N (store_path (px_store p) k) raw w))"
| "advance L N req tunnel (Missing url k) p w =
     (Fetching url k,
      p\<lparr>px_store := (px_store p)\<lparr>sto_remote_misses := insert k (sto_remote_misses (px_store p))\<rparr>\<rparr>, w)"
| "advance L N req tunnel (Decoding url k raw) p w =
     (case entry_decode (lib_from_slice L) (lib_sha256 L) (lib_hex L) raw of
        Ok entry \<Rightarrow>
          (Counting Hit (req_method req) (url_as_str (lib_url L) url) (word_of_nat (length (ent_body entry))) 0
             (replay (lib_headers L) entry), p, w)
      | Err err \<Rightarrow> (Fetching url k, p, w)
      | Panic \<Rightarrow> (Finished Panic, p, w))"
| "advance L N req tunnel (Fetching url k) p w =
     (case upstream_headers (lib_headers L) (req_headers req) of
        None \<Rightarrow> (failed L url ''failed to parse header value'', p, w)
      | Some sent \<Rightarrow>
          (case web_request N (px_fetcher p) (req_method req) (url_as_str (lib_url L) url) sent [] w of
             (Inl err, w') \<Rightarrow> (failed L url err, p, w')
           | (Inr up, w') \<Rightarrow> (Judging url k up (elapsed N w w'), p, w')))"
| "advance L N req tunnel (Judging url k up t) p w =
     (let H = lib_headers L; link = url_as_str (lib_url L) url;
          status = up_status up; headers = sanitize H (up_headers up) in
      if declared_length up > max_size (px_policy p)
      then (Counting (Miss (reject_as_str TooLarge)) (req_method req) link (declared_length up) t
              (Ok (stream_response H status headers up ''MISS'')), p, w)
      else case up_body up of
        Inl err \<Rightarrow> (failed L url err, p, w)
      | Inr body \<Rightarrow>
          let n = word_of_nat (length body); response = build H status headers body ''MISS'' in
          (case response_storable (px_policy p) (lib_url L) H url status headers n of
             Inl reject \<Rightarrow> (Counting (Miss (reject_as_str reject)) (req_method req) link n t response, p, w)
           | Inr _ \<Rightarrow>
               (case entry_encode (lib_to_vec L) (new_entry L N url status headers body w) of
                  Ok encoded \<Rightarrow> (Queueing url k encoded n t response, p, w)
                | Err err \<Rightarrow> (Counting (Miss ''encode failed'') (req_method req) link n t response, p, w)
                | Panic \<Rightarrow> (Finished Panic, p, w))))"
| "advance L N req tunnel (Queueing url k encoded n t response) p w =
     (if k \<in> sto_queued (px_store p)
      then (Counting Stored (req_method req) (url_as_str (lib_url L) url) n t response, p, w)
      else (Writing url k encoded n t response,
            p\<lparr>px_store := (px_store p)\<lparr>sto_queued := insert k (sto_queued (px_store p))\<rparr>\<rparr>, w))"
| "advance L N req tunnel (Writing url k encoded n t response) p w =
     (Filing url k encoded n t response, p, snd (sys_write N (store_path (px_store p) k) encoded w))"
| "advance L N req tunnel (Filing url k encoded n t response) p w =
     (let s = px_store p;
          s' = (if (word_of_nat (length encoded) :: u64) < cfg_pack_threshold (sto_config s)
                then (if k \<notin> sto_packed s
                      then s\<lparr>sto_packed := insert k (sto_packed s), sto_pack_dirty := True\<rparr> else s)
                else if sto_tx s then s\<lparr>sto_channel := sto_channel s @ [(k, encoded)]\<rparr> else s) in
      (Counting Stored (req_method req) (url_as_str (lib_url L) url) n t response, p\<lparr>px_store := s'\<rparr>, w))"
| "advance L N req tunnel (Counting outcome m link n t response) p w =
     (Finished response, px_record outcome m link n t p, w)"
| "advance L N req tunnel (Finished response) p w = (Finished response, p, w)"

declare advance.simps [simp del]

text \<open>How many steps a request can still make.\<close>

fun rank :: "('u, 'h) work \<Rightarrow> nat" where
  "rank Arrived = 13"
| "rank (Collecting url) = 12"
| "rank (Forwarding url body reject) = 2"
| "rank (Reading url k) = 11"
| "rank (Checking url k) = 10"
| "rank (Asking url k) = 9"
| "rank (Keeping url k raw) = 8"
| "rank (Missing url k) = 8"
| "rank (Decoding url k raw) = 7"
| "rank (Fetching url k) = 6"
| "rank (Judging url k up t) = 5"
| "rank (Queueing url k b n t r) = 4"
| "rank (Writing url k b n t r) = 3"
| "rank (Filing url k b n t r) = 2"
| "rank (Counting out m link n t r) = 1"
| "rank (Finished r) = 0"

lemma rank_failed [simp]: "rank (failed L url msg) = 1"
  by (simp add: failed_def)

fun result :: "('u, 'h) work \<Rightarrow> 'h response res option" where
  "result (Finished r) = Some r"
| "result wk = None"

lemma result_Some [simp]: "result wk = Some r \<longleftrightarrow> wk = Finished r"
  by (cases wk) auto

lemma advance_rank:
  "result wk = None \<Longrightarrow> advance L N req tunnel wk p w = (wk', p', w') \<Longrightarrow> rank wk' < rank wk"
  by (cases wk) (auto simp: advance.simps Let_def split: if_splits sum.splits option.splits prod.splits res.splits)

text \<open>A request run to its end without interruption.\<close>

function complete ::
  "('u, 'h) crates \<Rightarrow> ('w, 'h, 'z) web_scheme \<Rightarrow> 'h request \<Rightarrow> str option \<Rightarrow> ('u, 'h) work \<Rightarrow> proxy \<Rightarrow> 'w
     \<Rightarrow> 'h response res \<times> proxy \<times> 'w" where
  "complete L N req tunnel wk p w =
     (case result wk of
        Some r \<Rightarrow> (r, p, w)
      | None \<Rightarrow> (case advance L N req tunnel wk p w of (wk', p', w') \<Rightarrow> complete L N req tunnel wk' p' w'))"
  by pat_completeness auto

termination
  by (relation "measure (\<lambda>(L, N, req, tunnel, wk, p, w). rank wk)") (auto split: prod.split intro: advance_rank)

declare complete.simps [simp del]

lemma complete_Finished [simp]: "complete L N req tunnel (Finished r) p w = (r, p, w)"
  by (subst complete.simps) simp

lemma complete_step:
  "result wk = None \<Longrightarrow> advance L N req tunnel wk p w = (wk', p', w')
     \<Longrightarrow> complete L N req tunnel wk p w = complete L N req tunnel wk' p' w'"
  by (subst complete.simps) simp

lemma complete_Counting [simp]:
  "complete L N req tunnel (Counting out m link n t r) p w = (r, px_record out m link n t p, w)"
  by (subst complete.simps) (simp add: advance.simps)

text \<open>What \<open>dispatch\<close> makes of its handler's result.\<close>

definition settle ::
  "('u, 'h) crates \<Rightarrow> 'u \<Rightarrow> 'h response res \<times> proxy \<times> 'w \<Rightarrow> 'h response res \<times> proxy \<times> 'w" where
  "settle L url x =
     (case x of
        (Ok response, p, w) \<Rightarrow> (Ok response, p, w)
      | (Err msg, p, w) \<Rightarrow>
          (Ok (bad_gateway (lib_headers L) msg),
           px_record (Error msg) ''GET'' (url_as_str (lib_url L) url) 0 0 p, w)
      | (Panic, p, w) \<Rightarrow> (Panic, p, w))"

lemma settle_simps [simp]:
  "settle L url (Ok r, p, w) = (Ok r, p, w)"
  "settle L url (Panic, p, w) = (Panic, p, w)"
  by (simp_all add: settle_def)

lemma complete_failed [simp]:
  "complete L N req tunnel (failed L url msg) p w = settle L url (Err msg, p, w)"
  by (simp add: failed_def settle_def)

lemma settle_not_Err: "(\<And>e. r \<noteq> Err e) \<Longrightarrow> settle L url (r, p, w) = (r, p, w)"
  by (cases r) (auto simp: settle_def)

lemma build_not_Err: "build H status headers b tag \<noteq> Err e"
  by (auto simp: build_def Let_def split: option.split)

lemma replay_not_Err: "replay H e \<noteq> Err x"
  by (simp add: replay_def Let_def build_not_Err)

lemma complete_Forwarding:
  "complete L N req tunnel (Forwarding url body reject) p w
     = settle L url (forward L N p (req_method req) url (req_headers req) body reject w)"
proof -
  obtain x w1 where web: "web_request N (px_forwarder p) (req_method req) (url_as_str (lib_url L) url)
      (sanitize (lib_headers L) (req_headers req)) body w = (x, w1)" by fastforce
  then show ?thesis
    by (subst complete.simps)
      (cases x, simp_all add: advance.simps Let_def forward_def declared_length_def)
qed

lemma store_path_update [simp]:
  "store_path (s\<lparr>sto_queued := q\<rparr>) = store_path s" "store_path (s\<lparr>sto_gha := g\<rparr>) = store_path s"
  "store_path (s\<lparr>sto_remote_misses := m\<rparr>) = store_path s"
  by (simp_all add: store_path_def fun_eq_iff)

lemma complete_Queueing:
  assumes "store_put N k encoded (px_store p) w = (s, w')"
  shows "complete L N req tunnel (Queueing url k encoded n t r) p w
    = (r, px_record Stored (req_method req) (url_as_str (lib_url L) url) n t (p\<lparr>px_store := s\<rparr>), w')"
proof (cases "k \<in> sto_queued (px_store p)")
  case True
  moreover have "p\<lparr>px_store := px_store p\<rparr> = p" by simp
  ultimately show ?thesis
    using assms by (subst complete.simps) (auto simp: advance.simps store_put_def)
next
  case False
  let ?q = "p\<lparr>px_store := (px_store p)\<lparr>sto_queued := insert k (sto_queued (px_store p))\<rparr>\<rparr>"
  let ?w = "snd (sys_write N (store_path (px_store p) k) encoded w)"
  have "complete L N req tunnel (Queueing url k encoded n t r) p w
      = complete L N req tunnel (Filing url k encoded n t r) ?q ?w"
    using False by (subst complete_step, simp, simp add: advance.simps)
      (subst complete_step, simp_all add: advance.simps)
  also have "\<dots> = (r, px_record Stored (req_method req) (url_as_str (lib_url L) url) n t (p\<lparr>px_store := s\<rparr>), w')"
    using False assms
    by (subst complete.simps) (auto simp: advance.simps Let_def store_put_def split: prod.splits if_splits)
  finally show ?thesis .
qed

lemma complete_Fetching:
  "complete L N req tunnel (Fetching url k) p w
     = settle L url (fetch_and_store L N p (req_method req) url (req_headers req) k w)"
proof (cases "upstream_headers (lib_headers L) (req_headers req)")
  case None
  then show ?thesis
    by (subst complete.simps) (simp add: advance.simps fetch_and_store_def Let_def)
next
  case (Some sent)
  let ?link = "url_as_str (lib_url L) url"
  obtain x w1 where web: "web_request N (px_fetcher p) (req_method req) ?link sent [] w = (x, w1)" by fastforce
  show ?thesis
  proof (cases x)
    case (Inl err)
    with Some web show ?thesis
      by (subst complete.simps) (simp add: advance.simps fetch_and_store_def Let_def)
  next
    case (Inr up)
    let ?t = "elapsed N w w1" and ?headers = "sanitize (lib_headers L) (up_headers up)"
    have "complete L N req tunnel (Fetching url k) p w = complete L N req tunnel (Judging url k up ?t) p w1"
      using Some web Inr by (intro complete_step) (simp_all add: advance.simps)
    also have "\<dots> = settle L url (fetch_and_store L N p (req_method req) url (req_headers req) k w)"
    proof (cases "declared_length up > max_size (px_policy p) \<or> (\<exists>err. up_body up = Inl err)")
      case True
      with Some web Inr show ?thesis
        by (subst complete.simps)
          (auto simp: advance.simps fetch_and_store_def Let_def declared_length_def)
    next
      case False
      then obtain b where b: "up_body up = Inr b" by (cases "up_body up") auto
      note unfolded = advance.simps fetch_and_store_def store_response_def new_entry_def Let_def
        declared_length_def settle_not_Err [OF build_not_Err]
      from Some web Inr False b show ?thesis
        by (subst complete.simps)
          (auto simp: unfolded complete_Queueing split: sum.split res.split prod.split)
    qed
    finally show ?thesis .
  qed
qed

lemma complete_Decoding:
  "complete L N req tunnel (Decoding url k raw) p w =
    (case entry_decode (lib_from_slice L) (lib_sha256 L) (lib_hex L) raw of
       Ok entry \<Rightarrow> settle L url (replay (lib_headers L) entry,
         px_record Hit (req_method req) (url_as_str (lib_url L) url)
           (word_of_nat (length (ent_body entry))) 0 p, w)
     | Err err \<Rightarrow> settle L url (fetch_and_store L N p (req_method req) url (req_headers req) k w)
     | Panic \<Rightarrow> (Panic, p, w))"
  by (subst complete.simps)
    (simp add: advance.simps complete_Fetching settle_not_Err [OF replay_not_Err] split: res.split)

lemma complete_Reading:
  assumes "store_get N k (px_store p) w = (found, s, w1)"
  shows "complete L N req tunnel (Reading url k) p w =
    (case found of
       None \<Rightarrow> complete L N req tunnel (Fetching url k) (p\<lparr>px_store := s\<rparr>) w1
     | Some raw \<Rightarrow> complete L N req tunnel (Decoding url k raw) (p\<lparr>px_store := s\<rparr>) w1)"
proof (cases "sys_read N (store_path (px_store p) k) w")
  case (Some raw)
  with assms have "found = Some raw" "s = px_store p" "w1 = w" by (auto simp: store_get_def)
  with Some show ?thesis by (subst complete.simps) (simp add: advance.simps)
next
  case None
  then have "complete L N req tunnel (Reading url k) p w = complete L N req tunnel (Checking url k) p w"
    by (intro complete_step) (simp_all add: advance.simps)
  also have "\<dots> = (case found of
       None \<Rightarrow> complete L N req tunnel (Fetching url k) (p\<lparr>px_store := s\<rparr>) w1
     | Some raw \<Rightarrow> complete L N req tunnel (Decoding url k raw) (p\<lparr>px_store := s\<rparr>) w1)"
  proof (cases "sto_gha (px_store p) = None \<or> k \<notin> sto_index (px_store p) \<or> k \<in> sto_remote_misses (px_store p)")
    case True
    with None assms have "found = None" "s = px_store p" "w1 = w"
      by (auto simp: store_get_def split: option.splits if_splits)
    with True show ?thesis by (subst complete.simps) (simp add: advance.simps)
  next
    case False
    then obtain g where g: "sto_gha (px_store p) = Some g" by auto
    obtain r g1 w2 where called: "gha_get N g k w = (r, g1, w2)" by (metis prod_cases3)
    have "complete L N req tunnel (Checking url k) p w = complete L N req tunnel (Asking url k) p w"
      using False by (intro complete_step) (simp_all add: advance.simps)
    also have "\<dots> = (case found of
         None \<Rightarrow> complete L N req tunnel (Fetching url k) (p\<lparr>px_store := s\<rparr>) w1
       | Some raw \<Rightarrow> complete L N req tunnel (Decoding url k raw) (p\<lparr>px_store := s\<rparr>) w1)"
    proof (cases "\<exists>raw. r = Inr (Some raw)")
      case True
      then obtain raw where raw: "r = Inr (Some raw)" by blast
      let ?s = "(px_store p)\<lparr>sto_gha := Some g1\<rparr>"
      from raw None False g called assms have
        found: "found = Some raw" "s = ?s" "w1 = snd (sys_write N (store_path (px_store p) k) raw w2)"
        by (auto simp: store_get_def Let_def split: prod.splits)
      have "complete L N req tunnel (Asking url k) p w
          = complete L N req tunnel (Keeping url k raw) (p\<lparr>px_store := ?s\<rparr>) w2"
        using g called raw by (intro complete_step) (simp_all add: advance.simps Let_def)
      also have "\<dots> = complete L N req tunnel (Decoding url k raw) (p\<lparr>px_store := s\<rparr>) w1"
        using found by (intro complete_step) (simp_all add: advance.simps)
      finally show ?thesis using found by simp
    next
      case missed: False
      let ?s = "(px_store p)\<lparr>sto_gha := Some g1\<rparr>"
      from missed None False g called assms have
        found: "found = None" "s = ?s\<lparr>sto_remote_misses := insert k (sto_remote_misses (px_store p))\<rparr>" "w1 = w2"
        by (auto simp: store_get_def Let_def split: sum.splits option.splits)
      have "complete L N req tunnel (Asking url k) p w
          = complete L N req tunnel (Missing url k) (p\<lparr>px_store := ?s\<rparr>) w2"
        using g called missed by (intro complete_step) (auto simp: advance.simps Let_def split: sum.split option.split)
      also have "\<dots> = complete L N req tunnel (Fetching url k) (p\<lparr>px_store := s\<rparr>) w1"
        using found by (intro complete_step) (simp_all add: advance.simps)
      finally show ?thesis using found by simp
    qed
    finally show ?thesis .
  qed
  finally show ?thesis .
qed

lemma complete_Collecting:
  "complete L N req tunnel (Collecting url) p w = settle L url (handle L N p req url w)"
proof (cases "req_body req")
  case (Inl err)
  then show ?thesis by (subst complete.simps) (simp add: advance.simps handle_def)
next
  case (Inr body)
  show ?thesis
  proof (cases "request_eligible (px_policy p) (lib_url L) (lib_headers L) (req_method req) url (req_headers req)")
    case (Inl reject)
    with Inr show ?thesis
      by (subst complete.simps) (simp add: advance.simps handle_def complete_Forwarding)
  next
    case eligible: (Inr u)
    let ?key = "policy_key (px_policy p) (lib_url L) (lib_sha256 L) (lib_hex L) url"
    obtain found s w1 where get: "store_get N ?key (px_store p) w = (found, s, w1)" by (metis prod_cases3)
    have "complete L N req tunnel (Collecting url) p w = complete L N req tunnel (Reading url ?key) p w"
      using Inr eligible by (intro complete_step) (simp_all add: advance.simps)
    with get eligible show ?thesis
      using handle_eligible [OF Inr _ get]
      by (simp add: complete_Reading complete_Fetching complete_Decoding split: option.split res.split)
  qed
qed

lemma complete_Arrived: "complete L N req tunnel Arrived p w = dispatch L N p req tunnel w"
proof -
  let ?direct = "tunnel = None \<and> (req_method req = ''CONNECT'' \<or> req_authority req = None)"
  consider ?direct | err where "absolute_url (lib_url L) req tunnel = Inl err" "\<not> ?direct"
    | url where "absolute_url (lib_url L) req tunnel = Inr url" "\<not> ?direct"
    by (metis sum.exhaust)
  then show ?thesis
  proof cases
    case 1
    then show ?thesis
      by (subst complete.simps) (auto simp: advance.simps dispatch_def split: prod.split)
  next
    case 2
    then show ?thesis
      by (subst complete.simps) (auto simp: advance.simps dispatch_def)
  next
    case 3
    then have "complete L N req tunnel Arrived p w = complete L N req tunnel (Collecting url) p w"
      by (intro complete_step) (auto simp: advance.simps)
    with 3 show ?thesis
      by (auto simp: complete_Collecting dispatch_def settle_def split: prod.split res.split)
  qed
qed

end
