(* ===== verification/Serve.thy ===== *)
theory Serve
  imports Steps Upload Ca
begin

text \<open>
  The server (\<open>src/src/proxy.rs\<close>, \<open>serve\<close>, \<open>connect\<close>, \<open>intercept\<close>): connections and the requests on
  them, served concurrently with each other, with the upload loop and with whatever the outside does
  meanwhile.
\<close>

section \<open>The server\<close>

text \<open>
  A connection waits for a request, or serves one (a connection carries one at a time), or was
  answered a \<open>CONNECT\<close> and belongs to the task spawned for it, or copies bytes. \<open>Open\<close> and \<open>Serving\<close>
  carry the authority of the decrypted tunnel, if it is one.
\<close>

datatype ('u, 'h) conn =
  Open "str option"
| Serving "str option" "'h request" "('u, 'h) work"
| Upgrading connection
| Copying str u16

datatype phase = Listening | Ended "unit res" \<comment> \<open>what \<open>serve\<close> returned\<close>

text \<open>What has been answered so far, oldest first; kept for the statements only.\<close>

type_synonym 'h answer = "'h request \<times> str option \<times> 'h response"

record ('w, 'u, 'h) server =
  srv_proxy :: proxy
  srv_ca :: ca
  srv_world :: 'w
  srv_phase :: phase
  srv_conns :: "('u, 'h) conn list"
  srv_running :: "(str \<times> bytes) list" \<comment> \<open>upload tasks\<close>
  srv_done :: "upload list"
  srv_answers :: "'h answer list"

text \<open>The uploads of a server, as \<open>Upload\<close> sees them.\<close>

definition job_of :: "('w, 'u, 'h) server \<Rightarrow> 'w job" where
  "job_of v = \<lparr>job_store = px_store (srv_proxy v), job_world = srv_world v, job_running = srv_running v,
     job_done = srv_done v, job_late = {}\<rparr>"

definition with_job :: "('w, 'u, 'h) server \<Rightarrow> 'w job \<Rightarrow> ('w, 'u, 'h) server" where
  "with_job v j = v\<lparr>srv_proxy := (srv_proxy v)\<lparr>px_store := job_store j\<rparr>, srv_world := job_world j,
     srv_running := job_running j, srv_done := job_done j\<rparr>"

text \<open>What becomes of a connection whose request was answered.\<close>

definition after_answer :: "('u, 'h) crates \<Rightarrow> proxy \<Rightarrow> str option \<Rightarrow> 'h request \<Rightarrow> ('u, 'h) conn" where
  "after_answer L p tunnel req =
     (if tunnel = None \<and> req_method req = ''CONNECT''
      then (case snd (connect L p req) of Some c \<Rightarrow> Upgrading c | None \<Rightarrow> Open None)
      else Open tunnel)"

text \<open>
  The server's own steps, which nothing outside has to prompt: a request's next step, its answer
  handed to the client, the task of an upgraded connection, and the upload loop's.
\<close>

inductive own_step ::
  "('u, 'h) crates \<Rightarrow> ('w, 'h, 'z) web_scheme \<Rightarrow> 'w crypto \<Rightarrow> ('w, 'u, 'h) server \<Rightarrow> ('w, 'u, 'h) server \<Rightarrow> bool"
  for L N C where
  work: "srv_conns v = xs @ Serving tunnel req wk # ys \<Longrightarrow> result wk = None
    \<Longrightarrow> advance L N req tunnel wk (srv_proxy v) (srv_world v) = (wk', p, w)
    \<Longrightarrow> own_step L N C v (v\<lparr>srv_conns := xs @ Serving tunnel req wk' # ys, srv_proxy := p, srv_world := w\<rparr>)"
| answer: "srv_conns v = xs @ Serving tunnel req (Finished (Ok response)) # ys
    \<Longrightarrow> own_step L N C v (v\<lparr>srv_conns := xs @ after_answer L (srv_proxy v) tunnel req # ys,
          srv_answers := srv_answers v @ [(req, tunnel, response)]\<rparr>)"
| crash: "srv_conns v = xs @ Serving tunnel req (Finished r) # ys \<Longrightarrow> (\<And>response. r \<noteq> Ok response)
    \<Longrightarrow> own_step L N C v (v\<lparr>srv_conns := xs @ ys\<rparr>)"
| intercept: "srv_conns v = xs @ Upgrading (Intercept host port) # ys
    \<Longrightarrow> server_config C host (srv_ca v) (srv_world v) = (r, c, w)
    \<Longrightarrow> own_step L N C v (v\<lparr>srv_ca := c, srv_world := w, srv_conns :=
          xs @ (case r of Ok config \<Rightarrow> [Open (Some (tunnel_authority host port))] | _ \<Rightarrow> []) @ ys\<rparr>)"
| tunnel: "srv_conns v = xs @ Upgrading (Tunnel host port) # ys
    \<Longrightarrow> own_step L N C v (v\<lparr>srv_conns := xs @ Copying host port # ys,
          srv_proxy := connection_opened (Tunnel host port) (srv_proxy v)\<rparr>)"
| upload: "loop_step (job_of v) j \<Longrightarrow> own_step L N C v (with_job v j)"

text \<open>
  What comes from outside: connections, requests, clients that leave at any moment (the request is
  then dropped where it is, and so is a handshake or a tunnel that fails), a signal, an error of the
  listener, teardown closing the queue, and any change of the world, a write of another task seen
  half done among them.
\<close>

inductive outer_step :: "('w, 'u, 'h) server \<Rightarrow> ('w, 'u, 'h) server \<Rightarrow> bool" where
  accept: "srv_phase v = Listening \<Longrightarrow> outer_step v (v\<lparr>srv_conns := srv_conns v @ [Open None]\<rparr>)"
| request: "srv_conns v = xs @ Open tunnel # ys
    \<Longrightarrow> outer_step v (v\<lparr>srv_conns := xs @ Serving tunnel req Arrived # ys\<rparr>)"
| leave: "srv_conns v = xs @ c # ys \<Longrightarrow> outer_step v (v\<lparr>srv_conns := xs @ ys\<rparr>)"
| stopped: "srv_phase v = Listening \<Longrightarrow> px_shutdown (srv_proxy v)
    \<Longrightarrow> outer_step v (v\<lparr>srv_phase := Ended (Ok ())\<rparr>)"
| signal: "srv_phase v = Listening
    \<Longrightarrow> outer_step v (v\<lparr>srv_phase := Ended (Ok ()), srv_proxy := (srv_proxy v)\<lparr>px_shutdown := True\<rparr>\<rparr>)"
| accept_failed: "srv_phase v = Listening \<Longrightarrow> outer_step v (v\<lparr>srv_phase := Ended (Err msg)\<rparr>)"
| close_queue: "srv_phase v \<noteq> Listening \<Longrightarrow> outer_step v (v\<lparr>srv_proxy := (srv_proxy v)\<lparr>px_store :=
      (px_store (srv_proxy v))\<lparr>sto_tx := False\<rparr>\<rparr>\<rparr>)"
| outside: "outer_step v (v\<lparr>srv_world := w\<rparr>)"

definition serve_step ::
  "('u, 'h) crates \<Rightarrow> ('w, 'h, 'z) web_scheme \<Rightarrow> 'w crypto \<Rightarrow> ('w, 'u, 'h) server \<Rightarrow> ('w, 'u, 'h) server \<Rightarrow> bool" where
  "serve_step L N C v v' \<longleftrightarrow> own_step L N C v v' \<or> outer_step v v'"

definition server_start :: "proxy \<Rightarrow> ca \<Rightarrow> 'w \<Rightarrow> ('w, 'u, 'h) server" where
  "server_start p c w = \<lparr>srv_proxy = p, srv_ca = c, srv_world = w, srv_phase = Listening, srv_conns = [],
     srv_running = [], srv_done = [], srv_answers = []\<rparr>"

inductive_cases own_stepE: "own_step L N C v v'"
inductive_cases outer_stepE: "outer_step v v'"

section \<open>One schedule is the handler\<close>

lemma own_steps_complete:
  "complete L N req tunnel wk p w = (r, p', w') \<Longrightarrow> srv_conns v = xs @ Serving tunnel req wk # ys
    \<Longrightarrow> srv_proxy v = p \<Longrightarrow> srv_world v = w
    \<Longrightarrow> (own_step L N C)\<^sup>*\<^sup>* v
      (v\<lparr>srv_conns := xs @ Serving tunnel req (Finished r) # ys, srv_proxy := p', srv_world := w'\<rparr>)"
proof (induction L N req tunnel wk p w arbitrary: v rule: complete.induct)
  case (1 L N req tunnel wk p w)
  show ?case
  proof (cases "result wk")
    case (Some r')
    with 1(2) have "wk = Finished r \<and> p' = p \<and> w' = w" by auto
    then have "v\<lparr>srv_conns := xs @ Serving tunnel req (Finished r) # ys, srv_proxy := p', srv_world := w'\<rparr> = v"
      using 1(3-5) by (cases v) simp
    then show ?thesis by simp
  next
    case None
    obtain wk1 p1 w1 where adv: "advance L N req tunnel wk p w = (wk1, p1, w1)" by (metis prod_cases3)
    let ?v = "v\<lparr>srv_conns := xs @ Serving tunnel req wk1 # ys, srv_proxy := p1, srv_world := w1\<rparr>"
    from adv 1(3-5) None have first: "own_step L N C v ?v" by (intro own_step.work) simp_all
    have "complete L N req tunnel wk1 p1 w1 = (r, p', w')" using 1(2) complete_step [OF None adv] by simp
    with 1(1) [OF None adv [symmetric] refl, of ?v] have "(own_step L N C)\<^sup>*\<^sup>* ?v
        (?v\<lparr>srv_conns := xs @ Serving tunnel req (Finished r) # ys, srv_proxy := p', srv_world := w'\<rparr>)" by simp
    with first show ?thesis by (auto intro: converse_rtranclp_into_rtranclp)
  qed
qed

lemma dispatch_schedule:
  assumes "srv_conns v = xs @ Serving tunnel req Arrived # ys"
    and "dispatch L N (srv_proxy v) req tunnel (srv_world v) = (r, p', w')"
  shows "complete L N req tunnel Arrived (srv_proxy v) (srv_world v) = (r, p', w')
    \<and> (own_step L N C)\<^sup>*\<^sup>* v
      (v\<lparr>srv_conns := xs @ Serving tunnel req (Finished r) # ys, srv_proxy := p', srv_world := w'\<rparr>)"
proof -
  from assms(2) have run: "complete L N req tunnel Arrived (srv_proxy v) (srv_world v) = (r, p', w')"
    by (simp add: complete_Arrived)
  from own_steps_complete [OF run assms(1) refl refl] run show ?thesis by blast
qed

section \<open>What a step changes\<close>

lemma advance_frame:
  assumes "advance L N req tunnel wk p w = (wk', p', w')"
  shows "px_policy p' = px_policy p \<and> px_mitm_ports p' = px_mitm_ports p
    \<and> (px_shutdown p \<longrightarrow> px_shutdown p')
    \<and> sto_objects (px_store p') = sto_objects (px_store p)
    \<and> sto_config (px_store p') = sto_config (px_store p) \<and> sto_tx (px_store p') = sto_tx (px_store p)
    \<and> sto_index (px_store p') = sto_index (px_store p)
    \<and> sto_queued (px_store p) \<subseteq> sto_queued (px_store p')
    \<and> sto_packed (px_store p) \<subseteq> sto_packed (px_store p')
    \<and> (sto_gha (px_store p') = None \<longleftrightarrow> sto_gha (px_store p) = None)"
proof (cases wk)
  case Arrived
  with assms show ?thesis
    by (auto simp: advance.simps control_def Let_def split: if_splits sum.splits)
qed (use assms in \<open>auto simp: advance.simps Let_def px_record_def
      split: if_splits sum.splits option.splits prod.splits res.splits\<close>)

text \<open>The keys of objects a request has claimed and not yet handed on.\<close>

fun claimed :: "('u, 'h) work \<Rightarrow> str list" where
  "claimed (Writing url k b n t r) = [k]"
| "claimed (Filing url k b n t r) = [k]"
| "claimed wk = []"

lemma claimed_failed [simp]: "claimed (failed L url msg) = []"
  by (simp add: failed_def)

lemma advance_keys:
  assumes "advance L N req tunnel wk p w = (wk', p', w')"
  shows "(claimed wk' = claimed wk \<and> sto_queued (px_store p') = sto_queued (px_store p)
      \<and> sto_channel (px_store p') = sto_channel (px_store p) \<and> sto_packed (px_store p') = sto_packed (px_store p))
    \<or> (\<exists>url k b n t r. wk = Queueing url k b n t r \<and> claimed wk' = [k] \<and> k \<notin> sto_queued (px_store p)
      \<and> sto_queued (px_store p') = insert k (sto_queued (px_store p))
      \<and> sto_channel (px_store p') = sto_channel (px_store p) \<and> sto_packed (px_store p') = sto_packed (px_store p))
    \<or> (\<exists>url k b n t r. wk = Filing url k b n t r \<and> claimed wk' = [] \<and> sto_queued (px_store p') = sto_queued (px_store p)
      \<and> (sto_packed (px_store p') = insert k (sto_packed (px_store p))
          \<and> sto_channel (px_store p') = sto_channel (px_store p)
        \<or> sto_packed (px_store p') = sto_packed (px_store p)
          \<and> (sto_channel (px_store p') = sto_channel (px_store p)
            \<or> sto_channel (px_store p') = sto_channel (px_store p) @ [(k, b)])))"
proof (cases wk)
  case Arrived
  with assms show ?thesis
    by (auto simp: advance.simps control_def Let_def split: if_splits sum.splits)
qed (use assms in \<open>auto simp: advance.simps Let_def px_record_def
      split: if_splits sum.splits option.splits prod.splits res.splits\<close>)

section \<open>Keys\<close>

fun conn_keys :: "('u, 'h) conn \<Rightarrow> str list" where
  "conn_keys (Serving tunnel req wk) = claimed wk"
| "conn_keys c = []"

lemma conn_keys_after [simp]: "conn_keys (after_answer L p tunnel req) = []"
  by (simp add: after_answer_def split: option.split)

text \<open>Every object of the job by its key: claimed by a request, waiting, being uploaded, uploaded.\<close>

definition server_keys :: "('w, 'u, 'h) server \<Rightarrow> str list" where
  "server_keys v = concat (map conn_keys (srv_conns v)) @ map fst (job_items (job_of v))"

definition server_once :: "('w, 'u, 'h) server \<Rightarrow> bool" where
  "server_once v \<longleftrightarrow> distinct (server_keys v) \<and> set (server_keys v) \<subseteq> sto_queued (px_store (srv_proxy v))
     \<and> length (srv_running v) \<le> max 1 (cfg_concurrency (sto_config (px_store (srv_proxy v))))"

lemma job_of_simps [simp]:
  "job_store (job_of v) = px_store (srv_proxy v)" "job_running (job_of v) = srv_running v"
  "job_done (job_of v) = srv_done v" "job_world (job_of v) = srv_world v" "job_late (job_of v) = {}"
  by (simp_all add: job_of_def)

lemma with_job_simps [simp]:
  "srv_conns (with_job v j) = srv_conns v" "srv_answers (with_job v j) = srv_answers v"
  "srv_phase (with_job v j) = srv_phase v" "srv_ca (with_job v j) = srv_ca v"
  "px_store (srv_proxy (with_job v j)) = job_store j" "srv_running (with_job v j) = job_running j"
  "srv_done (with_job v j) = job_done j" "srv_world (with_job v j) = job_world j"
  "px_policy (srv_proxy (with_job v j)) = px_policy (srv_proxy v)"
  "px_shutdown (srv_proxy (with_job v j)) = px_shutdown (srv_proxy v)"
  by (simp_all add: with_job_def)

lemma job_items_of: "job_items (job_of v) = map fst (srv_done v) @ srv_running v @ sto_channel (px_store (srv_proxy v))"
  by (simp add: job_items_def)

lemma job_items_with [simp]: "job_items (job_of (with_job v j)) = job_items j"
  by (simp add: job_items_def)

text \<open>A step adds no key but one that was never queued, which it queues.\<close>

lemma own_step_keys:
  assumes "own_step L N C v v'"
  shows "mset (server_keys v') \<subseteq># mset (server_keys v)
        \<and> sto_queued (px_store (srv_proxy v')) = sto_queued (px_store (srv_proxy v))
      \<or> (\<exists>k. k \<notin> sto_queued (px_store (srv_proxy v)) \<and> mset (server_keys v') = add_mset k (mset (server_keys v))
        \<and> sto_queued (px_store (srv_proxy v')) = insert k (sto_queued (px_store (srv_proxy v))))"
  using assms
proof cases
  case (work xs tunnel req wk ys wk' p w)
  from advance_keys [OF work(4)] show ?thesis
    by (elim disjE exE conjE) (auto simp: work server_keys_def job_items_of)
next
  case (answer xs tunnel req response ys)
  then show ?thesis by (simp add: server_keys_def job_items_of)
next
  case (crash xs tunnel req r ys)
  then show ?thesis by (simp add: server_keys_def job_items_of)
next
  case (intercept xs host port ys r c w)
  then show ?thesis by (cases r) (simp_all add: server_keys_def job_items_of)
next
  case (tunnel xs host port ys)
  then show ?thesis by (simp add: server_keys_def job_items_of)
next
  case (upload j)
  have "mset (map fst (job_items j)) \<subseteq># mset (map fst (job_items (job_of v)))"
    using loop_items [OF upload(2)] by auto
  with upload loop_frame [OF upload(2)] show ?thesis by (simp add: server_keys_def)
qed

lemma outer_step_keys:
  assumes "outer_step v v'"
  shows "mset (server_keys v') \<subseteq># mset (server_keys v)
    \<and> sto_queued (px_store (srv_proxy v')) = sto_queued (px_store (srv_proxy v))"
  using assms by cases (auto simp: server_keys_def job_items_of)

lemma own_step_running:
  assumes "own_step L N C v v'"
  shows "sto_config (px_store (srv_proxy v')) = sto_config (px_store (srv_proxy v))
    \<and> (length (srv_running v) \<le> max 1 (cfg_concurrency (sto_config (px_store (srv_proxy v))))
      \<longrightarrow> length (srv_running v') \<le> max 1 (cfg_concurrency (sto_config (px_store (srv_proxy v)))))"
  using assms
proof cases
  case (work xs tunnel req wk ys wk' p w)
  with advance_frame [OF work(4)] show ?thesis by simp
next
  case (upload j)
  from upload(2) have "length (srv_running v) \<le> max 1 (cfg_concurrency (sto_config (px_store (srv_proxy v))))
      \<longrightarrow> length (job_running j) \<le> max 1 (cfg_concurrency (sto_config (px_store (srv_proxy v))))"
    by cases auto
  with upload loop_frame [OF upload(2)] show ?thesis by simp
qed auto

lemma outer_step_running:
  "outer_step v v' \<Longrightarrow> sto_config (px_store (srv_proxy v')) = sto_config (px_store (srv_proxy v))
    \<and> srv_running v' = srv_running v"
  by (erule outer_stepE) auto

lemma server_once_step: "server_once v \<Longrightarrow> serve_step L N C v v' \<Longrightarrow> server_once v'"
proof -
  assume once: "server_once v" and step: "serve_step L N C v v'"
  have run: "length (srv_running v') \<le> max 1 (cfg_concurrency (sto_config (px_store (srv_proxy v'))))"
    using step once own_step_running [of L N C v v'] outer_step_running [of v v']
    by (auto simp: serve_step_def server_once_def)
  have "mset (server_keys v') \<subseteq># mset (server_keys v)
        \<and> sto_queued (px_store (srv_proxy v')) = sto_queued (px_store (srv_proxy v))
      \<or> (\<exists>k. k \<notin> sto_queued (px_store (srv_proxy v)) \<and> mset (server_keys v') = add_mset k (mset (server_keys v))
        \<and> sto_queued (px_store (srv_proxy v')) = insert k (sto_queued (px_store (srv_proxy v))))"
    using step own_step_keys [of L N C v v'] outer_step_keys [of v v'] unfolding serve_step_def by blast
  then show ?thesis
  proof (elim disjE exE conjE)
    assume sub: "mset (server_keys v') \<subseteq># mset (server_keys v)"
      and same: "sto_queued (px_store (srv_proxy v')) = sto_queued (px_store (srv_proxy v))"
    from set_mset_mono [OF sub] have "set (server_keys v') \<subseteq> set (server_keys v)" by simp
    with distinct_submultiset [OF sub] same once run show ?thesis by (auto simp: server_once_def)
  next
    fix k
    assume new: "k \<notin> sto_queued (px_store (srv_proxy v))" "mset (server_keys v') = add_mset k (mset (server_keys v))"
      "sto_queued (px_store (srv_proxy v')) = insert k (sto_queued (px_store (srv_proxy v)))"
    then have "mset (server_keys v') = mset (k # server_keys v)" by simp
    moreover from this have "distinct (server_keys v') \<longleftrightarrow> distinct (k # server_keys v)"
      by (rule mset_eq_imp_distinct_iff)
    moreover have "set (server_keys v') = set (k # server_keys v)"
      using calculation(1) by (rule mset_eq_setD)
    ultimately show ?thesis using new once run by (auto simp: server_once_def)
  qed
qed

section \<open>Answers and objects\<close>

text \<open>An object the policy allows in the cache: the encoded form of a storable response to a request
  that may use the cache, under that request's key.\<close>

definition storable_object :: "('u, 'h) crates \<Rightarrow> policy \<Rightarrow> str \<Rightarrow> bytes \<Rightarrow> bool" where
  "storable_object L P k b \<longleftrightarrow>
     (\<exists>url m h status headers body now.
        request_eligible P (lib_url L) (lib_headers L) m url h = Inr ()
      \<and> response_storable P (lib_url L) (lib_headers L) url status headers (word_of_nat (length body)) = Inr ()
      \<and> k = policy_key P (lib_url L) (lib_sha256 L) (lib_hex L) url
      \<and> entry_encode (lib_to_vec L) (entry_new (lib_headers L) (lib_sha256 L) (lib_hex L) now
          (url_as_str (lib_url L) url) status headers body) = Ok b)"

text \<open>A well-formed answer: a valid status, at most one length, which is the body's, at most one tag,
  one of the three, and but for a hit no header that is for one hop.\<close>

definition response_ok :: "'h header_ops \<Rightarrow> 'h response \<Rightarrow> bool" where
  "response_ok H r \<longleftrightarrow> 100 \<le> res_status r \<and> res_status r \<le> 999
     \<and> (\<forall>b. res_body r = Full b \<longrightarrow>
          hm_values H (res_headers r) ''content-length'' \<in> {[], [as_bytes (dec (length b))]})
     \<and> hm_values H (res_headers r) ''x-cicache''
         \<in> {[], [as_bytes ''HIT''], [as_bytes ''MISS''], [as_bytes ''PASS'']}
     \<and> (hm_values H (res_headers r) ''x-cicache'' \<noteq> [as_bytes ''HIT''] \<longrightarrow>
          (\<forall>n \<in> set PROXY_HOP_BY_HOP. hm_values H (res_headers r) n = []))"

text \<open>A hit is the replay of an entry that decodes, its digest checked, for a request that may use the
  cache.\<close>

definition hit_ok :: "('u, 'h) crates \<Rightarrow> policy \<Rightarrow> 'h answer \<Rightarrow> bool" where
  "hit_ok L P a \<longleftrightarrow> (case a of (req, tunnel, r) \<Rightarrow>
     hm_values (lib_headers L) (res_headers r) ''x-cicache'' = [as_bytes ''HIT''] \<longrightarrow>
     (\<exists>url raw e. absolute_url (lib_url L) req tunnel = Inr url
        \<and> request_eligible P (lib_url L) (lib_headers L) (req_method req) url (req_headers req) = Inr ()
        \<and> entry_decode (lib_from_slice L) (lib_sha256 L) (lib_hex L) raw = Ok e
        \<and> lib_hex L (lib_sha256 L (ent_body e)) = hdr_sha256 (ent_header e)
        \<and> replay (lib_headers L) e = Ok r))"

definition answer_ok :: "('u, 'h) crates \<Rightarrow> policy \<Rightarrow> 'h answer \<Rightarrow> bool" where
  "answer_ok L P a \<longleftrightarrow> response_ok (lib_headers L) (snd (snd a)) \<and> hit_ok L P a"

text \<open>The documented behaviour the server relies on: headers, and status codes of three digits.\<close>

definition server_laws :: "('u, 'h) crates \<Rightarrow> ('w, 'h, 'z) web_scheme \<Rightarrow> bool" where
  "server_laws L N \<longleftrightarrow> tag_law (lib_headers L) \<and> header_laws (lib_headers L)
     \<and> (\<forall>red m u h b w up w'. web_request N red m u h b w = (Inr up, w')
          \<longrightarrow> 100 \<le> up_status up \<and> up_status up \<le> 999)"

lemma tags_differ [simp]:
  "as_bytes ''MISS'' \<noteq> as_bytes ''HIT''" "as_bytes ''PASS'' \<noteq> as_bytes ''HIT''"
  unfolding as_bytes_inject by simp_all

lemma hop_headers [simp]:
  "''content-length'' \<notin> set PROXY_HOP_BY_HOP" "''x-cicache'' \<notin> set PROXY_HOP_BY_HOP"
  "''content-type'' \<notin> set PROXY_HOP_BY_HOP"
  by (simp_all add: PROXY_HOP_BY_HOP_def)

lemma hop_header_distinct:
  "n \<in> set PROXY_HOP_BY_HOP \<Longrightarrow> n \<noteq> ''content-length'' \<and> n \<noteq> ''x-cicache'' \<and> n \<noteq> ''content-type''"
  by auto

lemma server_lawsD:
  assumes "server_laws L N"
  shows "tag_law (lib_headers L)" "header_laws (lib_headers L)"
    "web_request N red m u h b w = (Inr up, w') \<Longrightarrow> 100 \<le> up_status up \<and> up_status up \<le> 999"
  using assms unfolding server_laws_def by blast+

lemma typed_answer_ok:
  assumes "header_laws (lib_headers L)" "100 \<le> status" "status \<le> 999"
  shows "answer_ok L P (req, tunnel, typed_response (lib_headers L) status ct b)"
  using assms by (auto simp: answer_ok_def response_ok_def hit_ok_def typed_response_def hm_laws
      dest: hop_header_distinct)

lemma text_answer_ok:
  "header_laws (lib_headers L) \<Longrightarrow> 100 \<le> status \<Longrightarrow> status \<le> 999
     \<Longrightarrow> answer_ok L P (req, tunnel, text_response (lib_headers L) status msg)"
  by (simp add: text_response_def typed_answer_ok)

lemma error_answers_ok:
  assumes "header_laws (lib_headers L)"
  shows "answer_ok L P (req, tunnel, bad_request (lib_headers L) msg)"
    "answer_ok L P (req, tunnel, bad_gateway (lib_headers L) msg)"
  using assms by (simp_all add: bad_request_def bad_gateway_def text_answer_ok)

lemma control_answer_ok:
  "header_laws (lib_headers L) \<Longrightarrow> control L p r = (resp, p') \<Longrightarrow> answer_ok L P (req, tunnel, resp)"
  by (auto simp: control_def Let_def text_answer_ok typed_answer_ok split: if_splits)

lemma connect_answer_ok:
  "header_laws (lib_headers L) \<Longrightarrow> answer_ok L P (req, tunnel, fst (connect L p r))"
proof (cases "req_authority r")
  case None
  assume "header_laws (lib_headers L)"
  with None show ?thesis by (simp add: connect_def error_answers_ok)
qed (auto simp: connect_def Let_def answer_ok_def response_ok_def hit_ok_def hm_laws)

lemma sanitized_hop_headers:
  "header_laws H \<Longrightarrow> n \<in> set PROXY_HOP_BY_HOP \<Longrightarrow> hm_values H (sanitize H headers) n = []"
  by (simp add: values_sanitize)

lemma stream_answer_ok:
  assumes "tag_law (lib_headers L)" "header_laws (lib_headers L)" "tag \<in> {''MISS'', ''PASS''}"
    and "100 \<le> status" "status \<le> 999"
  shows "answer_ok L P (req, tunnel, stream_response (lib_headers L) status (sanitize (lib_headers L) headers) up tag)"
  using assms(2-5) insert_tag [OF assms(1), of tag]
  by (auto simp: answer_ok_def response_ok_def hit_ok_def stream_response_def hm_laws sanitized_hop_headers
      dest: hop_header_distinct)

lemma built_answer_ok:
  assumes "tag_law (lib_headers L)" "header_laws (lib_headers L)" "100 \<le> status" "status \<le> 999"
    and "build (lib_headers L) status (sanitize (lib_headers L) headers) b ''MISS'' = Ok response"
  shows "answer_ok L P (req, tunnel, response)"
  using assms(2-5) build_Ok [OF assms(1), of "''MISS''"]
  by (auto simp: answer_ok_def response_ok_def hit_ok_def hm_laws sanitized_hop_headers
      dest: hop_header_distinct)

lemma replayed_answer_ok:
  assumes "tag_law (lib_headers L)" "header_laws (lib_headers L)"
    and "absolute_url (lib_url L) req tunnel = Inr url"
    and "request_eligible P (lib_url L) (lib_headers L) (req_method req) url (req_headers req) = Inr ()"
    and "entry_decode (lib_from_slice L) (lib_sha256 L) (lib_hex L) raw = Ok e"
    and "replay (lib_headers L) e = Ok response"
  shows "answer_ok L P (req, tunnel, response)"
proof -
  have "lib_hex L (lib_sha256 L (ent_body e)) = hdr_sha256 (ent_header e)"
    using assms(5) by (auto simp: entry_decode_def Let_def split: if_splits res.splits)
  with assms(3-6) have "hit_ok L P (req, tunnel, response)" by (auto simp: hit_ok_def)
  moreover have "response_ok (lib_headers L) response"
    using assms(2,6) build_Ok [OF assms(1), of "''HIT''"]
    by (auto simp: response_ok_def replay_def Let_def hm_laws)
  ultimately show ?thesis by (simp add: answer_ok_def)
qed

section \<open>The invariant of a server\<close>

text \<open>What a request in progress holds: the answer it has ready, the object it is about to store, the
  URL and key it works on.\<close>

fun pending :: "('u, 'h) work \<Rightarrow> 'h response res option" where
  "pending (Queueing url k b n t r) = Some r"
| "pending (Writing url k b n t r) = Some r"
| "pending (Filing url k b n t r) = Some r"
| "pending (Counting out m link n t r) = Some r"
| "pending (Finished r) = Some r"
| "pending wk = None"

fun carried :: "('u, 'h) work \<Rightarrow> (str \<times> bytes) list" where
  "carried (Queueing url k b n t r) = [(k, b)]"
| "carried (Writing url k b n t r) = [(k, b)]"
| "carried (Filing url k b n t r) = [(k, b)]"
| "carried wk = []"

fun target :: "('u, 'h) work \<Rightarrow> ('u \<times> str) option" where
  "target (Reading url k) = Some (url, k)"
| "target (Checking url k) = Some (url, k)"
| "target (Asking url k) = Some (url, k)"
| "target (Keeping url k raw) = Some (url, k)"
| "target (Missing url k) = Some (url, k)"
| "target (Decoding url k raw) = Some (url, k)"
| "target (Fetching url k) = Some (url, k)"
| "target (Judging url k up t) = Some (url, k)"
| "target wk = None"

fun requested :: "('u, 'h) work \<Rightarrow> 'u option" where
  "requested (Collecting url) = Some url"
| "requested wk = None"

fun received :: "('u, 'h) work \<Rightarrow> 'h upstream option" where
  "received (Judging url k up t) = Some up"
| "received wk = None"

definition work_inv ::
  "('u, 'h) crates \<Rightarrow> policy \<Rightarrow> 'h request \<Rightarrow> str option \<Rightarrow> ('u, 'h) work \<Rightarrow> bool" where
  "work_inv L P req tunnel wk \<longleftrightarrow>
     (\<forall>r. pending wk = Some (Ok r) \<longrightarrow> answer_ok L P (req, tunnel, r))
     \<and> (\<forall>ob \<in> set (carried wk). storable_object L P (fst ob) (snd ob))
     \<and> (\<forall>url. requested wk = Some url \<longrightarrow> absolute_url (lib_url L) req tunnel = Inr url)
     \<and> (\<forall>url k. target wk = Some (url, k) \<longrightarrow> absolute_url (lib_url L) req tunnel = Inr url
         \<and> request_eligible P (lib_url L) (lib_headers L) (req_method req) url (req_headers req) = Inr ()
         \<and> k = policy_key P (lib_url L) (lib_sha256 L) (lib_hex L) url)
     \<and> (\<forall>up. received wk = Some up \<longrightarrow> 100 \<le> up_status up \<and> up_status up \<le> 999)"

lemma work_inv_Arrived: "work_inv L P req tunnel Arrived"
  by (simp add: work_inv_def)

lemma failed_holds [simp]:
  "pending (failed L url msg) = Some (Ok (bad_gateway (lib_headers L) msg))" "carried (failed L url msg) = []"
  "requested (failed L url msg) = None" "target (failed L url msg) = None" "received (failed L url msg) = None"
  by (simp_all add: failed_def)

lemma work_inv_Judging:
  assumes laws: "server_laws L N" and inv: "work_inv L P req tunnel (Judging url k up t)"
    and policy: "px_policy p = P"
    and step: "advance L N req tunnel (Judging url k up t) p w = (wk', p', w')"
  shows "work_inv L P req tunnel wk'"
proof -
  note tag = server_lawsD(1) [OF laws] and hdr = server_lawsD(2) [OF laws]
  from inv have status: "100 \<le> up_status up" "up_status up \<le> 999"
    and url: "absolute_url (lib_url L) req tunnel = Inr url"
    and eligible: "request_eligible P (lib_url L) (lib_headers L) (req_method req) url (req_headers req) = Inr ()"
    and key: "k = policy_key P (lib_url L) (lib_sha256 L) (lib_hex L) url"
    by (simp_all add: work_inv_def)
  let ?headers = "sanitize (lib_headers L) (up_headers up)"
  have built: "answer_ok L P (req, tunnel, r)"
    if "build (lib_headers L) (up_status up) ?headers b ''MISS'' = Ok r" for r b
    using built_answer_ok [OF tag hdr status that] .
  have streamed: "answer_ok L P (req, tunnel, stream_response (lib_headers L) (up_status up) ?headers up ''MISS'')"
    by (rule stream_answer_ok [OF tag hdr _ status]) simp
  have stored: "storable_object L P k encoded"
    if "response_storable P (lib_url L) (lib_headers L) url (up_status up) ?headers (word_of_nat (length b)) = Inr ()"
      "entry_encode (lib_to_vec L) (new_entry L N url (up_status up) ?headers b w) = Ok encoded" for b encoded
    using that eligible key unfolding storable_object_def new_entry_def by blast
  from step policy built streamed stored error_answers_ok(2) [OF hdr] show ?thesis
    by (auto simp: advance.simps Let_def work_inv_def split: if_splits sum.splits res.splits)
qed

lemma work_inv_step:
  assumes laws: "server_laws L N" and inv: "work_inv L P req tunnel wk" and policy: "px_policy p = P"
    and step: "advance L N req tunnel wk p w = (wk', p', w')"
  shows "work_inv L P req tunnel wk'"
proof -
  note tag = server_lawsD(1) [OF laws] and hdr = server_lawsD(2) [OF laws]
  show ?thesis
  proof (cases wk)
    case Arrived
    with step show ?thesis
      using error_answers_ok [OF hdr] control_answer_ok [OF hdr] connect_answer_ok [OF hdr]
      by (auto simp: advance.simps work_inv_def split: if_splits sum.splits prod.splits)
  next
    case (Collecting url)
    with step inv policy error_answers_ok(2) [OF hdr] show ?thesis
      by (auto simp: advance.simps work_inv_def split: sum.splits)
  next
    case (Forwarding url body reject)
    with step inv error_answers_ok(2) [OF hdr] stream_answer_ok [OF tag hdr, of "''PASS''"] server_lawsD(3) [OF laws]
    show ?thesis
      by (auto simp: advance.simps Let_def work_inv_def split: sum.splits prod.splits)
  next
    case (Decoding url k raw)
    with step inv replayed_answer_ok [OF tag hdr] show ?thesis
      by (auto simp: advance.simps work_inv_def split: res.splits)
  next
    case (Fetching url k)
    with step inv error_answers_ok(2) [OF hdr] server_lawsD(3) [OF laws] show ?thesis
      by (auto simp: advance.simps work_inv_def split: option.splits sum.splits prod.splits)
  next
    case (Judging url k up t)
    with work_inv_Judging [OF laws _ policy] inv step show ?thesis by blast
  qed (use step inv in \<open>auto simp: advance.simps work_inv_def Let_def
        split: if_splits option.splits sum.splits prod.splits\<close>)
qed

definition server_inv :: "('u, 'h) crates \<Rightarrow> policy \<Rightarrow> ('w, 'u, 'h) server \<Rightarrow> bool" where
  "server_inv L P v \<longleftrightarrow> px_policy (srv_proxy v) = P
     \<and> (\<forall>tunnel req wk. Serving tunnel req wk \<in> set (srv_conns v) \<longrightarrow> work_inv L P req tunnel wk)
     \<and> (\<forall>a \<in> set (srv_answers v). answer_ok L P a)
     \<and> (\<forall>ob \<in> set (job_items (job_of v)). storable_object L P (fst ob) (snd ob))"

lemma server_inv_own:
  assumes laws: "server_laws L N" and inv: "server_inv L P v" and step: "own_step L N C v v'"
  shows "server_inv L P v'"
  using step
proof cases
  case (work xs tunnel req wk ys wk' p w)
  from inv work have wk: "work_inv L P req tunnel wk" and policy: "px_policy (srv_proxy v) = P"
    by (auto simp: server_inv_def)
  note next_inv = work_inv_step [OF laws wk policy work(4)]
  have "\<forall>ob \<in> set (job_items (job_of v')). storable_object L P (fst ob) (snd ob)"
    using advance_keys [OF work(4)] inv wk
    by (elim disjE exE conjE) (auto simp: work(1) server_inv_def job_items_of work_inv_def)
  with inv work next_inv advance_frame [OF work(4)] show ?thesis by (auto simp: server_inv_def)
next
  case (answer xs tunnel req response ys)
  then have "Serving tunnel req (Finished (Ok response)) \<in> set (srv_conns v)" by simp
  with inv have "work_inv L P req tunnel (Finished (Ok response))" unfolding server_inv_def by blast
  then have "answer_ok L P (req, tunnel, response)" by (simp add: work_inv_def)
  moreover have "Serving t q wk \<noteq> after_answer L p tunnel req" for t q wk p
    by (simp add: after_answer_def split: option.split)
  ultimately show ?thesis using inv answer by (auto simp: server_inv_def job_items_of)
next
  case (upload j)
  from loop_keys(1) [OF upload(2)] inv upload(1) show ?thesis by (auto simp: server_inv_def)
qed (use inv in \<open>auto simp: server_inv_def job_items_of px_record_def split: res.splits\<close>)

lemma server_inv_outer: "server_inv L P v \<Longrightarrow> outer_step v v' \<Longrightarrow> server_inv L P v'"
  by (erule outer_stepE) (auto simp: server_inv_def job_items_of work_inv_Arrived)

text \<open>Both invariants as instances of the interface of \<open>Prelude\<close>.\<close>

interpretation keys: stepping "serve_step L N C" server_once for L N C
  by unfold_locales (rule server_once_step)

interpretation answers: stepping "serve_step L N C" "\<lambda>v. server_laws L N \<and> server_inv L P v" for L N C P
  by unfold_locales (auto simp: serve_step_def intro: server_inv_own server_inv_outer)

lemma server_once_start: "unused (px_store p) \<Longrightarrow> server_once (server_start p c w)"
  by (simp add: server_once_def server_start_def server_keys_def job_items_of unused_def)

lemma server_inv_start: "unused (px_store p) \<Longrightarrow> server_inv L (px_policy p) (server_start p c w)"
  by (simp add: server_inv_def server_start_def job_items_of unused_def)

section \<open>Progress\<close>

fun conn_left :: "('u, 'h) conn \<Rightarrow> nat" where
  "conn_left (Serving tunnel req wk) = 3 * rank wk + 2"
| "conn_left (Upgrading c) = 1"
| "conn_left c = 0"

definition server_left :: "('w, 'u, 'h) server \<Rightarrow> nat" where
  "server_left v = sum_list (map conn_left (srv_conns v)) + loop_left (job_of v)"

lemma conn_left_after: "conn_left (after_answer L p tunnel req) \<le> 1"
  by (simp add: after_answer_def split: option.split)

lemma own_step_decreases: "own_step L N C v v' \<Longrightarrow> server_left v' < server_left v"
proof (induction rule: own_step.induct)
  case (work v xs tunnel req wk ys wk' p w)
  from advance_rank [OF work(2,3)] have "rank wk' < rank wk" .
  moreover have "length (sto_channel (px_store p)) \<le> Suc (length (sto_channel (px_store (srv_proxy v))))"
    using advance_keys [OF work(3)] by auto
  ultimately show ?case using work(1) by (simp add: server_left_def loop_left_def)
next
  case (answer v xs tunnel req response ys)
  with conn_left_after [of L "srv_proxy v" tunnel req] show ?case by (simp add: server_left_def loop_left_def)
next
  case (intercept v xs host port ys r c w)
  then show ?case by (cases r) (simp_all add: server_left_def loop_left_def)
next
  case (upload v j)
  from loop_step_decreases [OF upload] show ?case by (simp add: server_left_def loop_left_def)
qed (simp_all add: server_left_def loop_left_def px_record_def)

definition server_quiet :: "('w, 'u, 'h) server \<Rightarrow> bool" where
  "server_quiet v \<longleftrightarrow> (\<forall>c \<in> set (srv_conns v). conn_left c = 0)
     \<and> sto_channel (px_store (srv_proxy v)) = [] \<and> srv_running v = []"

text \<open>Uploads run only where there is a service.\<close>

definition server_fed :: "('w, 'u, 'h) server \<Rightarrow> bool" where
  "server_fed v \<longleftrightarrow> (sto_gha (px_store (srv_proxy v)) = None \<longrightarrow> srv_running v = [])"

lemma server_fed_step: "server_fed v \<Longrightarrow> serve_step L N C v v' \<Longrightarrow> server_fed v'"
  unfolding serve_step_def
proof (elim disjE)
  assume "server_fed v" "own_step L N C v v'"
  from this(2,1) show ?thesis
  proof (induction rule: own_step.induct)
    case (work v xs tunnel req wk ys wk' p w)
    with advance_frame [OF work(3)] show ?case by (simp add: server_fed_def)
  next
    case (upload v j)
    from upload show ?case
      by (cases rule: loop_step.cases) (auto simp: server_fed_def)
  qed (auto simp: server_fed_def px_record_def)
qed (erule outer_stepE; auto simp: server_fed_def)

interpretation fed: stepping "serve_step L N C" server_fed for L N C
  by unfold_locales (rule server_fed_step)

lemma own_step_enabled:
  assumes "\<not> server_quiet v" "server_fed v"
  shows "\<exists>v'. own_step L N C v v'"
proof (cases "\<exists>c \<in> set (srv_conns v). conn_left c \<noteq> 0")
  case True
  then obtain c xs ys where c: "srv_conns v = xs @ c # ys" "conn_left c \<noteq> 0" by (metis split_list)
  show ?thesis
  proof (cases c)
    case (Serving tunnel req wk)
    show ?thesis
    proof (cases "result wk")
      case None
      obtain wk' p w where "advance L N req tunnel wk (srv_proxy v) (srv_world v) = (wk', p, w)" by (metis prod_cases3)
      from own_step.work [OF _ None this] c Serving show ?thesis by blast
    next
      case (Some r)
      with c Serving show ?thesis by (cases r) (auto intro: own_step.answer own_step.crash)
    qed
  next
    case (Upgrading x)
    show ?thesis
    proof (cases x)
      case (Intercept host port)
      obtain r ca w where "server_config C host (srv_ca v) (srv_world v) = (r, ca, w)" by (metis prod_cases3)
      from own_step.intercept [OF _ this] c Upgrading Intercept show ?thesis by blast
    next
      case (Tunnel host port)
      with c Upgrading show ?thesis by (blast intro: own_step.tunnel)
    qed
  qed (use c in simp_all)
next
  case False
  with assms have "sto_channel (job_store (job_of v)) \<noteq> []
      \<or> job_running (job_of v) \<noteq> [] \<and> sto_gha (job_store (job_of v)) \<noteq> None"
    by (auto simp: server_quiet_def server_fed_def)
  from loop_step_enabled [OF this] show ?thesis by (blast intro: own_step.upload)
qed

lemma own_steps_bounded: "(own_step L N C ^^ n) v v' \<Longrightarrow> n + server_left v' \<le> server_left v"
proof (induction n arbitrary: v')
  case (Suc n)
  then obtain u where "(own_step L N C ^^ n) v u" "own_step L N C u v'" by auto
  with Suc.IH [of u] own_step_decreases [of L N C u v'] show ?case by simp
qed simp

lemma own_steps_end: "\<exists>v'. (own_step L N C)\<^sup>*\<^sup>* v v' \<and> (\<nexists>u. own_step L N C v' u)"
proof (induction "server_left v" arbitrary: v rule: less_induct)
  case less
  show ?case
  proof (cases "\<exists>u. own_step L N C v u")
    case True
    then obtain u where u: "own_step L N C v u" by blast
    from less [OF own_step_decreases [OF u]] obtain v' where
      "(own_step L N C)\<^sup>*\<^sup>* u v'" "\<nexists>z. own_step L N C v' z" by blast
    with u show ?thesis by (blast intro: converse_rtranclp_into_rtranclp)
  qed blast
qed

text \<open>Requests in progress, and what was answered, as pairs of a request and its tunnel.\<close>

definition questions :: "('u, 'h) conn list \<Rightarrow> ('h request \<times> str option) list" where
  "questions cs = concat (map (\<lambda>c. case c of Serving tunnel req wk \<Rightarrow> [(req, tunnel)] | _ \<Rightarrow> []) cs)"

definition answered_questions :: "('w, 'u, 'h) server \<Rightarrow> ('h request \<times> str option) list" where
  "answered_questions v = map (\<lambda>(req, tunnel, r). (req, tunnel)) (srv_answers v)"

lemma questions_simps [simp]:
  "questions [] = []" "questions (cs @ ds) = questions cs @ questions ds"
  "questions (Serving tunnel req wk # cs) = (req, tunnel) # questions cs"
  "questions (Open t # cs) = questions cs" "questions (Upgrading x # cs) = questions cs"
  "questions (Copying host port # cs) = questions cs"
  "questions (after_answer L p tunnel req # cs) = questions cs"
  by (simp_all add: questions_def after_answer_def split: option.split)

lemma questions_quiet: "\<forall>c \<in> set cs. conn_left c = 0 \<Longrightarrow> questions cs = []"
  by (induction cs) (auto simp: questions_def split: conn.split)

text \<open>A codec that never panics: then no request is lost to one.\<close>

definition codec_total :: "('u, 'h) crates \<Rightarrow> bool" where
  "codec_total L \<longleftrightarrow> (\<forall>h. lib_to_vec L h \<noteq> Panic) \<and> (\<forall>b. lib_from_slice L b \<noteq> Panic)"

definition ready :: "('u, 'h) work \<Rightarrow> bool" where
  "ready wk \<longleftrightarrow> (\<forall>r. pending wk = Some r \<longrightarrow> (\<exists>response. r = Ok response))"

lemma codec_totalD:
  assumes "codec_total L"
  shows "entry_encode (lib_to_vec L) e \<noteq> Panic"
    "entry_decode (lib_from_slice L) (lib_sha256 L) (lib_hex L) raw \<noteq> Panic"
  using assms by (auto simp: codec_total_def entry_encode_def entry_decode_def Let_def split: res.split)

lemma advance_ready:
  assumes "server_laws L N" "codec_total L" "ready wk"
    and step: "advance L N req tunnel wk p w = (wk', p', w')"
  shows "ready wk'"
proof -
  note tag = server_lawsD(1) [OF assms(1)]
  have built: "\<exists>r. build (lib_headers L) st hs b ''MISS'' = Ok r" for st hs b
    by (simp add: build_Ok [OF tag])
  have replayed: "\<exists>r. replay (lib_headers L) e = Ok r" for e
    by (simp add: replay_def Let_def build_Ok [OF tag])
  show ?thesis
    using step assms(3) built replayed codec_totalD [OF assms(2)]
    by (cases wk) (auto simp: advance.simps Let_def ready_def
        split: if_splits sum.splits option.splits prod.splits res.splits)
qed

definition server_ready :: "('w, 'u, 'h) server \<Rightarrow> bool" where
  "server_ready v \<longleftrightarrow> (\<forall>tunnel req wk. Serving tunnel req wk \<in> set (srv_conns v) \<longrightarrow> ready wk)"

lemma server_ready_step:
  "server_laws L N \<Longrightarrow> codec_total L \<Longrightarrow> server_ready v \<Longrightarrow> serve_step L N C v v' \<Longrightarrow> server_ready v'"
  unfolding serve_step_def
proof (elim disjE)
  assume laws: "server_laws L N" "codec_total L" and "server_ready v" "own_step L N C v v'"
  from this(4,3) show ?thesis
  proof (induction rule: own_step.induct)
    case (work v xs tunnel req wk ys wk' p w)
    then have "ready wk" by (auto simp: server_ready_def)
    with advance_ready [OF laws _ work(3)] work show ?case by (auto simp: server_ready_def)
  next
    case (answer v xs tunnel req response ys)
    have "Serving t q wk \<noteq> after_answer L p tunnel req" for t q wk p
      by (simp add: after_answer_def split: option.split)
    with answer show ?case by (auto simp: server_ready_def)
  next
    case (intercept v xs host port ys r c w)
    then show ?case by (cases r) (auto simp: server_ready_def)
  qed (auto simp: server_ready_def)
qed (erule outer_stepE; auto simp: server_ready_def ready_def)

interpretation ready: stepping "serve_step L N C" "\<lambda>v. server_laws L N \<and> codec_total L \<and> server_ready v" for L N C
  by unfold_locales (auto intro: server_ready_step)

lemma own_step_questions:
  assumes "own_step L N C v v'" "server_ready v"
  shows "mset (answered_questions v') + mset (questions (srv_conns v'))
    = mset (answered_questions v) + mset (questions (srv_conns v))"
  using assms
proof (induction rule: own_step.induct)
  case (crash v xs tunnel req r ys)
  then have "Serving tunnel req (Finished r) \<in> set (srv_conns v)" by simp
  with crash(3) have "pending (Finished r :: ('a, 'b) work) = Some r \<longrightarrow> (\<exists>response. r = Ok response)"
    unfolding server_ready_def ready_def by blast
  with crash(2) show ?case by auto
next
  case (intercept v xs host port ys r c w)
  then show ?case by (cases r) (simp_all add: answered_questions_def)
qed (simp_all add: answered_questions_def)

lemma own_steps_questions:
  assumes "(own_step L N C)\<^sup>*\<^sup>* v v'" "server_laws L N" "codec_total L" "server_ready v"
  shows "mset (answered_questions v') + mset (questions (srv_conns v'))
    = mset (answered_questions v) + mset (questions (srv_conns v)) \<and> server_ready v'"
  using assms(1)
proof (induction rule: rtranclp_induct)
  case (step u v')
  with own_step_questions [of L N C u v'] server_ready_step [OF assms(2,3), of u C v'] show ?case
    by (simp add: serve_step_def)
qed (simp add: assms(4))

lemma own_steps_serve: "(own_step L N C)\<^sup>*\<^sup>* v v' \<Longrightarrow> (serve_step L N C)\<^sup>*\<^sup>* v v'"
  by (rule rtranclp_mono [THEN predicate2D]) (auto simp: serve_step_def)

lemma answers_ok:
  assumes "server_laws L N" "unused (px_store p)" "(serve_step L N C)\<^sup>*\<^sup>* (server_start p c w) v"
  shows "server_inv L (px_policy p) v"
proof -
  have "server_laws L N \<and> server_inv L (px_policy p) v"
    by (rule answers.inv_reachable [OF assms(3)]) (simp add: assms(1,2) server_inv_start)
  then show ?thesis by blast
qed

section \<open>Counters and manifest\<close>

lemma stats_record_uploads [simp]:
  "st_entries_stored (stats_record out m u b t st) = st_entries_stored st"
  "st_uploads_failed (stats_record out m u b t st) = st_uploads_failed st"
  "st_bytes_uploaded (stats_record out m u b t st) = st_bytes_uploaded st"
  by (cases out; simp add: stats_record_def Let_def split: option.split)+

lemma advance_counts:
  assumes "advance L N req tunnel wk p w = (wk', p', w')"
  shows "sto_index_dirty (px_store p') = sto_index_dirty (px_store p)
    \<and> sto_uploader (px_store p') = sto_uploader (px_store p)
    \<and> st_entries_stored (sto_stats (px_store p')) = st_entries_stored (sto_stats (px_store p))
    \<and> st_uploads_failed (sto_stats (px_store p')) = st_uploads_failed (sto_stats (px_store p))
    \<and> st_bytes_uploaded (sto_stats (px_store p')) = st_bytes_uploaded (sto_stats (px_store p))"
proof (cases wk)
  case Arrived
  with assms show ?thesis
    by (auto simp: advance.simps control_def Let_def split: if_splits sum.splits)
qed (use assms in \<open>auto simp: advance.simps Let_def
      split: if_splits sum.splits option.splits prod.splits res.splits\<close>)

lemma upload_result_uploader [simp]: "sto_uploader (upload_result k b r s) = sto_uploader s"
  by (auto simp: upload_result_def confirm_def split: sum.splits bool.splits)

lemma loop_uploader: "loop_step j j' \<Longrightarrow> sto_uploader (job_store j') = sto_uploader (job_store j)"
  by (induction rule: loop_step.induct) simp_all

definition server_counts :: "str set \<Rightarrow> stats \<Rightarrow> ('w, 'u, 'h) server \<Rightarrow> bool" where
  "server_counts I st v \<longleftrightarrow> index_inv I (job_of v) \<and> count_inv st (job_of v) \<and> sto_uploader (px_store (srv_proxy v))"

lemma server_counts_step: "server_counts I st v \<Longrightarrow> serve_step L N C v v' \<Longrightarrow> server_counts I st v'"
  unfolding serve_step_def
proof (elim disjE)
  assume "server_counts I st v" "own_step L N C v v'"
  from this(2,1) show ?thesis
  proof (induction rule: own_step.induct)
    case (work v xs tunnel req wk ys wk' p w)
    with advance_counts [OF work(3)] advance_frame [OF work(3)] show ?case
      by (simp add: server_counts_def index_inv_def count_inv_def)
  next
    case (upload v j)
    with loop_index [OF upload(1)] loop_count [OF upload(1)] loop_uploader [OF upload(1)] show ?case
      by (simp add: server_counts_def index_inv_def count_inv_def)
  qed (simp_all add: server_counts_def index_inv_def count_inv_def)
qed (erule outer_stepE; simp add: server_counts_def index_inv_def count_inv_def)

interpretation counts: stepping "serve_step L N C" "server_counts I st" for L N C I st
  by unfold_locales (rule server_counts_step)

lemma server_counts_start:
  "unused (px_store p) \<Longrightarrow> sto_uploader (px_store p)
     \<Longrightarrow> server_counts (sto_index (px_store p)) (sto_stats (px_store p)) (server_start p c w)"
  by (simp add: server_counts_def server_start_def index_inv_def count_inv_def unused_def)

section \<open>What shuts the server down\<close>

definition shutdown_request :: "('u, 'h) conn \<Rightarrow> bool" where
  "shutdown_request c \<longleftrightarrow> (\<exists>req. c = Serving None req Arrived \<and> req_method req \<noteq> ''CONNECT''
     \<and> req_authority req = None \<and> req_path req = ''/__cicache/shutdown'')"

lemma advance_shutdown:
  assumes "advance L N req tunnel wk p w = (wk', p', w')" "px_shutdown p'" "\<not> px_shutdown p"
  shows "wk = Arrived \<and> tunnel = None \<and> req_method req \<noteq> ''CONNECT'' \<and> req_authority req = None
    \<and> req_path req = ''/__cicache/shutdown''"
proof (cases wk)
  case Arrived
  with assms show ?thesis
    by (auto simp: advance.simps control_def Let_def split: if_splits sum.splits)
qed (use assms in \<open>auto simp: advance.simps Let_def px_record_def
      split: if_splits sum.splits option.splits prod.splits res.splits\<close>)

lemma own_step_shutdown:
  assumes "own_step L N C v v'"
  shows "srv_phase v' = srv_phase v \<and> length (srv_conns v') \<le> length (srv_conns v)
    \<and> (px_shutdown (srv_proxy v) \<longrightarrow> px_shutdown (srv_proxy v'))
    \<and> (px_shutdown (srv_proxy v') \<and> \<not> px_shutdown (srv_proxy v)
        \<longrightarrow> (\<exists>c \<in> set (srv_conns v). shutdown_request c))"
  using assms
proof cases
  case (work xs tunnel req wk ys wk' p w)
  with advance_frame [OF work(4)] advance_shutdown [OF work(4)] show ?thesis
    by (auto simp: shutdown_request_def)
next
  case (intercept xs host port ys r c w)
  then show ?thesis by (cases r) auto
qed (auto simp: px_record_def)

lemma outer_step_shutdown:
  "outer_step v v' \<Longrightarrow> (srv_phase v \<noteq> Listening \<longrightarrow> srv_phase v' = srv_phase v
      \<and> length (srv_conns v') \<le> length (srv_conns v))
    \<and> (px_shutdown (srv_proxy v) \<longrightarrow> px_shutdown (srv_proxy v'))
    \<and> (px_shutdown (srv_proxy v') \<and> \<not> px_shutdown (srv_proxy v)
        \<longrightarrow> srv_phase v = Listening \<and> srv_phase v' = Ended (Ok ()))"
  by (erule outer_stepE) auto

section \<open>An object dropped on the way\<close>

definition forgotten :: "str \<Rightarrow> ('w, 'u, 'h) server \<Rightarrow> bool" where
  "forgotten k v \<longleftrightarrow> k \<in> sto_queued (px_store (srv_proxy v)) \<and> k \<notin> set (server_keys v)
     \<and> k \<notin> sto_packed (px_store (srv_proxy v))"

lemma own_step_packed:
  assumes "own_step L N C v v'"
  shows "sto_packed (px_store (srv_proxy v')) \<subseteq> sto_packed (px_store (srv_proxy v)) \<union> set (server_keys v)"
  using assms
proof cases
  case (work xs tunnel req wk ys wk' p w)
  with advance_keys [OF work(4)] show ?thesis
    by (elim disjE exE conjE) (auto simp: server_keys_def)
next
  case (upload j)
  from loop_frame [OF upload(2)] upload(1) show ?thesis by simp
qed (auto simp: px_record_def)

lemma forgotten_step:
  assumes "forgotten k v" "serve_step L N C v v'"
  shows "forgotten k v'"
proof -
  have packed: "sto_packed (px_store (srv_proxy v')) \<subseteq> sto_packed (px_store (srv_proxy v)) \<union> set (server_keys v)"
    using assms(2) own_step_packed [of L N C v v'] unfolding serve_step_def by (auto elim!: outer_stepE)
  have "mset (server_keys v') \<subseteq># mset (server_keys v)
        \<and> sto_queued (px_store (srv_proxy v')) = sto_queued (px_store (srv_proxy v))
      \<or> (\<exists>j. j \<notin> sto_queued (px_store (srv_proxy v)) \<and> mset (server_keys v') = add_mset j (mset (server_keys v))
        \<and> sto_queued (px_store (srv_proxy v')) = insert j (sto_queued (px_store (srv_proxy v))))"
    using assms(2) own_step_keys [of L N C v v'] outer_step_keys [of v v'] unfolding serve_step_def by blast
  then have "k \<notin> set (server_keys v')" "k \<in> sto_queued (px_store (srv_proxy v'))"
    using assms(1) unfolding forgotten_def
    by (metis (no_types, lifting) insert_iff mset_subset_eqD set_mset_add_mset_insert set_mset_mset)+
  with packed assms(1) show ?thesis by (auto simp: forgotten_def)
qed

interpretation forgets: stepping "serve_step L N C" "forgotten k" for L N C k
  by unfold_locales (rule forgotten_step)

section \<open>Properties\<close>

text \<open>C9. A request run step by step without interruption does exactly what the handler does: same
  answer, same store, same statistics, same calls outside; and that run is a schedule of the server.\<close>

theorem dispatch_is_schedule:
  assumes "srv_conns v = xs @ Serving tunnel req Arrived # ys"
    and "dispatch L N (srv_proxy v) req tunnel (srv_world v) = (r, p', w')"
  shows "complete L N req tunnel Arrived (srv_proxy v) (srv_world v) = (r, p', w')
    \<and> (own_step L N C)\<^sup>*\<^sup>* v
      (v\<lparr>srv_conns := xs @ Serving tunnel req (Finished r) # ys, srv_proxy := p', srv_world := w'\<rparr>)"
  by (rule dispatch_schedule [OF assms])

text \<open>C5. However the steps of requests, uploads and the outside interleave, an object is in one place
  only: no key is claimed by two requests, waits twice, or is sent twice in a job, and never more
  uploads run than configured, or one.\<close>

theorem each_key_sent_once:
  assumes "unused (px_store p)" "(serve_step L N C)\<^sup>*\<^sup>* (server_start p c w) v"
  shows "distinct (concat (map conn_keys (srv_conns v)) @ map fst (map fst (srv_done v) @ srv_running v
      @ sto_channel (px_store (srv_proxy v))))
    \<and> length (srv_running v) \<le> max 1 (cfg_concurrency (sto_config (px_store (srv_proxy v))))"
  using keys.inv_reachable [OF assms(2) server_once_start [OF assms(1)]]
  by (simp add: server_once_def server_keys_def job_items_of)


text \<open>C4. At any moment, whatever else is going on, an answer tagged as a hit is the replay of an entry
  that decodes and whose body has the digest recorded with it, for a request that may use the cache:
  a file seen half written, or damaged, is never served.\<close>

theorem hits_authentic_in_any_schedule:
  assumes "server_laws L N" "unused (px_store p)" "(serve_step L N C)\<^sup>*\<^sup>* (server_start p c w) v"
    and "(req, tunnel, r) \<in> set (srv_answers v)"
    and "hm_values (lib_headers L) (res_headers r) ''x-cicache'' = [as_bytes ''HIT'']"
  shows "\<exists>url raw e. absolute_url (lib_url L) req tunnel = Inr url
    \<and> request_eligible (px_policy p) (lib_url L) (lib_headers L) (req_method req) url (req_headers req) = Inr ()
    \<and> entry_decode (lib_from_slice L) (lib_sha256 L) (lib_hex L) raw = Ok e
    \<and> lib_hex L (lib_sha256 L (ent_body e)) = hdr_sha256 (ent_header e)
    \<and> replay (lib_headers L) e = Ok r"
proof -
  from answers_ok [OF assms(1-3)] assms(4) have "hit_ok L (px_policy p) (req, tunnel, r)"
    unfolding server_inv_def answer_ok_def by blast
  with assms(5) show ?thesis by (simp add: hit_ok_def)
qed


text \<open>C8. Left to itself, from any moment on, the server comes to rest within a number of steps known in
  advance, and then every request that was in progress has been answered, once, none besides, no
  handshake is open, and the upload queue is empty with no upload running.\<close>

theorem server_comes_to_rest:
  assumes "server_laws L N" "codec_total L" "(serve_step L N C)\<^sup>*\<^sup>* (server_start p c w) v"
  shows "(\<forall>n v'. (own_step L N C ^^ n) v v' \<longrightarrow> n \<le> server_left v)
    \<and> (\<exists>v'. (own_step L N C)\<^sup>*\<^sup>* v v' \<and> (\<nexists>u. own_step L N C v' u))
    \<and> (\<forall>v'. (own_step L N C)\<^sup>*\<^sup>* v v' \<and> (\<nexists>u. own_step L N C v' u) \<longrightarrow> server_quiet v'
        \<and> mset (answered_questions v') = mset (answered_questions v) + mset (questions (srv_conns v)))"
proof (intro conjI allI impI)
  show "n \<le> server_left v" if "(own_step L N C ^^ n) v v'" for n v'
    using own_steps_bounded [OF that] by simp
  show "\<exists>v'. (own_step L N C)\<^sup>*\<^sup>* v v' \<and> (\<nexists>u. own_step L N C v' u)" by (rule own_steps_end)
  fix v'
  assume rest: "(own_step L N C)\<^sup>*\<^sup>* v v' \<and> (\<nexists>u. own_step L N C v' u)"
  have "server_fed (server_start p c w)" by (simp add: server_fed_def server_start_def)
  with assms(3) own_steps_serve rest have "server_fed v'"
    using fed.inv_reachable rtranclp_trans [of "serve_step L N C"] by metis
  with rest own_step_enabled show quiet: "server_quiet v'" by metis
  have "server_ready (server_start p c w)" by (simp add: server_ready_def server_start_def)
  with ready.inv_reachable [OF assms(3)] assms(1,2) have "server_ready v" by blast
  moreover have "questions (srv_conns v') = []"
    using quiet by (intro questions_quiet) (simp add: server_quiet_def)
  ultimately show "mset (answered_questions v') = mset (answered_questions v) + mset (questions (srv_conns v))"
    using own_steps_questions [OF conjunct1 [OF rest] assms(1,2)] by simp
qed



section \<open>Witnesses\<close>

text \<open>One connection, one request, answered.\<close>

lemma one_request_start:
  fixes L :: "('u, 'h) crates" and N :: "('w, 'h, 'z) web_scheme"
  shows "(serve_step L N C)\<^sup>*\<^sup>* (server_start p c w)
    ((server_start p c w)\<lparr>srv_conns := [Serving None req Arrived]\<rparr>)"
proof -
  let ?v0 = "server_start p c w :: ('w, 'u, 'h) server"
  let ?v1 = "?v0\<lparr>srv_conns := [Open None]\<rparr>" and ?v2 = "?v0\<lparr>srv_conns := [Serving None req Arrived]\<rparr>"
  have "outer_step ?v0 (?v0\<lparr>srv_conns := srv_conns ?v0 @ [Open None]\<rparr>)"
    by (rule outer_step.accept) (simp add: server_start_def)
  then have one: "serve_step L N C ?v0 ?v1" by (simp add: serve_step_def server_start_def)
  have "outer_step ?v1 (?v1\<lparr>srv_conns := [] @ Serving None req Arrived # []\<rparr>)"
    by (rule outer_step.request) simp
  then have two: "serve_step L N C ?v1 ?v2" by (simp add: serve_step_def)
  from one two show ?thesis by (rule converse_rtranclp_into_rtranclp [OF _ r_into_rtranclp])
qed

lemma one_request_run:
  fixes L :: "('u, 'h) crates" and N :: "('w, 'h, 'z) web_scheme"
  assumes "dispatch L N p req None w = (Ok r, p', w')" "req_method req \<noteq> ''CONNECT''"
  shows "(serve_step L N C)\<^sup>*\<^sup>* (server_start p c w)
    ((server_start p' c w')\<lparr>srv_conns := [Open None], srv_answers := [(req, None, r)]\<rparr>)"
proof -
  let ?v0 = "server_start p c w :: ('w, 'u, 'h) server"
  let ?v2 = "?v0\<lparr>srv_conns := [Serving None req Arrived]\<rparr>"
  let ?v3 = "?v0\<lparr>srv_conns := [Serving None req (Finished (Ok r))], srv_proxy := p', srv_world := w'\<rparr>"
  have conns: "srv_conns ?v2 = [] @ Serving None req Arrived # []" by simp
  have "dispatch L N (srv_proxy ?v2) req None (srv_world ?v2) = (Ok r, p', w')"
    using assms(1) by (simp add: server_start_def)
  from own_steps_serve [OF conjunct2 [OF dispatch_schedule [OF conns this]]]
  have middle: "(serve_step L N C)\<^sup>*\<^sup>* ?v2 ?v3" by simp
  have "own_step L N C ?v3 (?v3\<lparr>srv_conns := [] @ after_answer L (srv_proxy ?v3) None req # [],
      srv_answers := srv_answers ?v3 @ [(req, None, r)]\<rparr>)"
    by (rule own_step.answer) simp
  then have "serve_step L N C ?v3 ((server_start p' c w')\<lparr>srv_conns := [Open None], srv_answers := [(req, None, r)]\<rparr>)"
    using assms(2) by (simp add: serve_step_def after_answer_def server_start_def)
  from rtranclp.rtrancl_into_rtrancl [OF rtranclp_trans [OF one_request_start middle] this] show ?thesis .
qed

definition demo_keys :: "kv_world crypto" where
  "demo_keys =
     \<lparr>cry_generate = (\<lambda>w. (Some [1], w)), cry_self_sign = (\<lambda>params key. Some key),
      cry_params_ok = (\<lambda>h. True), cry_sign = (\<lambda>params key cert ca_key. Some (key @ cert)),
      cry_tls_ok = (\<lambda>chain key. True), cry_pem = of_bytes, cry_base64 = (\<lambda>c. []),
      cry_date = (\<lambda>y m d. 0), cry_now = (\<lambda>w. 1700)\<rparr>"

lemma demo_server_laws: "server_laws demo_crates demo_web" "codec_total demo_crates"
  using demo_tag_law alist_header_laws
  by (auto simp: server_laws_def codec_total_def demo_crates_def demo_up_def)

lemma demo_proxy_unused: "unused (px_store demo_proxy)"
  by (simp add: unused_def demo_proxy_def demo_store_def store_new_def)

lemma demo_dispatch:
  "handle demo_crates demo_web demo_proxy (demo_request ''GET'') demo_url w = (Ok r, p', w')
    \<Longrightarrow> dispatch demo_crates demo_web demo_proxy (demo_request ''GET'') None w = (Ok r, p', w')"
  by (simp add: dispatch_def demo_request_def absolute_url_def part_urls_def)

abbreviation demo_start :: "kv_world \<Rightarrow> (kv_world, part_url, (str \<times> bytes) list) server" where
  "demo_start \<equiv> server_start demo_proxy demo_ca"

lemma demo_served:
  "\<exists>r p' w'. (serve_step demo_crates demo_web demo_keys)\<^sup>*\<^sup>* (demo_start kv_empty)
      ((server_start p' demo_ca w')\<lparr>srv_conns := [Open None], srv_answers := [(demo_request ''GET'', None, r)]\<rparr>)
    \<and> sto_channel (px_store p') = [(demo_key, entry_frame [9] [1, 2])]"
proof -
  have "req_method (demo_request ''GET'') \<noteq> ''CONNECT''" by (simp add: demo_request_def)
  with demo_first demo_dispatch one_request_run show ?thesis by metis
qed

theorem dispatch_is_schedule_witness:
  "\<exists>r p' w'. complete demo_crates demo_web (demo_request ''GET'') None Arrived demo_proxy kv_empty = (Ok r, p', w')"
proof -
  from demo_first demo_dispatch obtain r p' w' where
    run: "dispatch demo_crates demo_web demo_proxy (demo_request ''GET'') None kv_empty = (Ok r, p', w')" by metis
  let ?v = "(demo_start kv_empty)\<lparr>srv_conns := [Serving None (demo_request ''GET'') Arrived]\<rparr>"
  have "srv_conns ?v = [] @ Serving None (demo_request ''GET'') Arrived # []" by simp
  from dispatch_is_schedule [OF this, of demo_crates demo_web "Ok r" p' w' demo_keys] run show ?thesis
    by (auto simp: server_start_def)
qed

theorem each_key_sent_once_witness:
  "\<exists>v. (serve_step demo_crates demo_web demo_keys)\<^sup>*\<^sup>* (demo_start kv_empty) v
    \<and> srv_answers v \<noteq> [] \<and> distinct (map fst (sto_channel (px_store (srv_proxy v))))"
proof -
  from demo_served obtain r p' w' where
    run: "(serve_step demo_crates demo_web demo_keys)\<^sup>*\<^sup>* (demo_start kv_empty)
      ((server_start p' demo_ca w')\<lparr>srv_conns := [Open None], srv_answers := [(demo_request ''GET'', None, r)]\<rparr>)" by blast
  let ?v = "(server_start p' demo_ca w')\<lparr>srv_conns := [Open None], srv_answers := [(demo_request ''GET'', None, r)]\<rparr>"
  have "distinct (map fst (sto_channel (px_store (srv_proxy ?v))))"
    using each_key_sent_once [OF demo_proxy_unused run] by (simp add: server_start_def)
  with run show ?thesis by (intro exI [of _ ?v] conjI) simp_all
qed



theorem hits_authentic_in_any_schedule_witness:
  "\<exists>r v url raw (e :: entry). (serve_step demo_crates demo_web demo_keys)\<^sup>*\<^sup>* (demo_start
      (kv_empty\<lparr>kv_files := [(store_path (px_store demo_proxy) demo_key, entry_frame [9] [1, 2])]\<rparr>)) v
    \<and> (demo_request ''GET'', None, r) \<in> set (srv_answers v)
    \<and> absolute_url (lib_url demo_crates) (demo_request ''GET'') None = Inr url
    \<and> entry_decode (lib_from_slice demo_crates) id of_bytes raw = Ok e \<and> replay alist_headers e = Ok r"
proof -
  let ?w = "kv_empty\<lparr>kv_files := [(store_path (px_store demo_proxy) demo_key, entry_frame [9] [1, 2])]\<rparr>"
  from demo_hit obtain r p' w' where
    run: "handle demo_crates demo_web demo_proxy (demo_request ''GET'') demo_url ?w = (Ok r, p', w')"
    and tag: "hm_values alist_headers (res_headers r) ''x-cicache'' = [as_bytes ''HIT'']" by blast
  have "req_method (demo_request ''GET'') \<noteq> ''CONNECT''" by (simp add: demo_request_def)
  from one_request_run [OF demo_dispatch [OF run] this] have
    reach: "(serve_step demo_crates demo_web demo_keys)\<^sup>*\<^sup>* (demo_start ?w)
      ((server_start p' demo_ca w')\<lparr>srv_conns := [Open None], srv_answers := [(demo_request ''GET'', None, r)]\<rparr>)" .
  let ?v = "(server_start p' demo_ca w')\<lparr>srv_conns := [Open None], srv_answers := [(demo_request ''GET'', None, r)]\<rparr>"
  have mem: "(demo_request ''GET'', None, r) \<in> set (srv_answers ?v)" by simp
  from tag have "hm_values (lib_headers demo_crates) (res_headers r) ''x-cicache'' = [as_bytes ''HIT'']" by simp
  from hits_authentic_in_any_schedule [OF demo_server_laws(1) demo_proxy_unused reach mem this] reach mem
  show ?thesis by (metis demo_crates_simps(2,3,4))
qed

theorem server_comes_to_rest_witness:
  "\<exists>v. (own_step demo_crates demo_web demo_keys)\<^sup>*\<^sup>*
      ((demo_start kv_empty)\<lparr>srv_conns := [Serving None (demo_request ''GET'') Arrived]\<rparr>) v
    \<and> answered_questions v = [(demo_request ''GET'', None)]"
proof -
  let ?v2 = "(demo_start kv_empty)\<lparr>srv_conns := [Serving None (demo_request ''GET'') Arrived]\<rparr>"
  have "(serve_step demo_crates demo_web demo_keys)\<^sup>*\<^sup>* (demo_start kv_empty) ?v2" by (rule one_request_start)
  from server_comes_to_rest [OF demo_server_laws this] obtain v where
    "(own_step demo_crates demo_web demo_keys)\<^sup>*\<^sup>* ?v2 v"
    "mset (answered_questions v) = mset (answered_questions ?v2) + mset (questions (srv_conns ?v2))"
    by blast
  moreover from this have "mset (answered_questions v) = {#(demo_request ''GET'', None)#}"
    by (simp add: answered_questions_def server_start_def)
  then have "answered_questions v = [(demo_request ''GET'', None)]" by simp
  ultimately show ?thesis by blast
qed


text \<open>A request interrupted while its response is being written to the local directory.\<close>

lemma advance_run:
  fixes L :: "('u, 'h) crates" and N :: "('w, 'h, 'z) web_scheme"
  assumes "advance L N req None wk p w = (wk', p', w')" "result wk = None"
  shows "(serve_step L N C)\<^sup>*\<^sup>* ((server_start p c w)\<lparr>srv_conns := [Serving None req wk]\<rparr>)
    ((server_start p' c w')\<lparr>srv_conns := [Serving None req wk']\<rparr>)"
proof -
  let ?v = "(server_start p c w :: ('w, 'u, 'h) server)\<lparr>srv_conns := [Serving None req wk]\<rparr>"
  have "own_step L N C ?v (?v\<lparr>srv_conns := [] @ Serving None req wk' # [], srv_proxy := p', srv_world := w'\<rparr>)"
    using assms by (intro own_step.work) (simp_all add: server_start_def)
  then show ?thesis by (simp add: serve_step_def server_start_def r_into_rtranclp)
qed

lemmas advance_runs = rtranclp_trans [OF advance_run [where C = demo_keys and c = demo_ca]]

lemma demo_interrupted:
  "\<exists>p' n t r. (serve_step demo_crates demo_web demo_keys)\<^sup>*\<^sup>* (demo_start kv_empty)
      ((server_start p' demo_ca kv_empty)\<lparr>srv_conns := [] @ Serving None (demo_request ''GET'')
        (Writing demo_url demo_key (entry_frame [9] [1, 2]) n t r) # []\<rparr>)
    \<and> sto_packed (px_store p') = {}"
proof -
  let ?r = "build (lib_headers demo_crates) 200 [(''etag'', [65])] [1, 2] ''MISS''"
  let ?p = "demo_proxy\<lparr>px_store := (px_store demo_proxy)\<lparr>sto_queued := insert demo_key (sto_queued (px_store demo_proxy))\<rparr>\<rparr>"
  let ?adv = "\<lambda>wk. advance demo_crates demo_web (demo_request ''GET'') None wk demo_proxy kv_empty"
  have steps:
    "?adv Arrived = (Collecting demo_url, demo_proxy, kv_empty)"
    "?adv (Collecting demo_url) = (Reading demo_url demo_key, demo_proxy, kv_empty)"
    "?adv (Reading demo_url demo_key) = (Checking demo_url demo_key, demo_proxy, kv_empty)"
    "?adv (Checking demo_url demo_key) = (Fetching demo_url demo_key, demo_proxy, kv_empty)"
    "?adv (Fetching demo_url demo_key) = (Judging demo_url demo_key demo_up 0, demo_proxy, kv_empty)"
    "?adv (Queueing demo_url demo_key (entry_frame [9] [1, 2]) 2 0 ?r)
      = (Writing demo_url demo_key (entry_frame [9] [1, 2]) 2 0 ?r, ?p, kv_empty)"
    using demo_eligible demo_unqueued
    by (simp_all add: advance.simps demo_request_def absolute_url_def part_urls_def kv_empty_def
        upstream_headers_def tag_values [OF demo_tag_law] elapsed_def)
      (simp_all add: demo_proxy_def)
  have judged: "?adv (Judging demo_url demo_key demo_up 0)
      = (Queueing demo_url demo_key (entry_frame [9] [1, 2]) 2 0 ?r, demo_proxy, kv_empty)"
    using demo_sanitized demo_storable demo_new demo_encoded
    by (simp add: advance.simps Let_def declared_length_def) (simp add: demo_up_def demo_proxy_def)
  note run = rtranclp_trans [OF one_request_start [of demo_crates demo_web demo_keys demo_proxy demo_ca kv_empty
    "demo_request ''GET''"]]
  have "sto_packed (px_store ?p) = {}" by (simp add: demo_proxy_def demo_store_def store_new_def)
  with run [OF advance_runs [OF steps(1) _ advance_runs [OF steps(2) _ advance_runs [OF steps(3) _
      advance_runs [OF steps(4) _ advance_runs [OF steps(5) _ advance_runs [OF judged _
      advance_run [OF steps(6)]]]]]]]]
  show ?thesis by (intro exI [of _ ?p] exI [of _ 2] exI [of _ 0] exI [of _ ?r]) simp
qed


end
