(* ===== verification/Daemon.thy ===== *)
theory Daemon
  imports Cli Serve
begin

text \<open>
  The daemon (\<open>run\<close> and \<open>main\<close> in \<open>src/src/main.rs\<close>): what is built and written before the first
  connection is accepted, what follows the accept loop, and the choice of the command. How the accept
  loop ends is \<open>Serve\<close>'s; \<open>run\<close> takes it as the argument \<open>serving\<close>.
\<close>

section \<open>Building the proxy\<close>

text \<open>
  From the open log to the proxy: \<open>gha\<close> is what \<open>from_env\<close> returned, \<open>built\<close> whether the HTTP clients
  could be built, \<open>log\<close> the log file as far as it could be opened.
\<close>

definition run_open ::
  "('w, 'z) sys_scheme \<Rightarrow> (str \<Rightarrow> str option) \<Rightarrow> proxy_args \<Rightarrow> str \<Rightarrow> gha option \<Rightarrow> bool \<Rightarrow> str res \<Rightarrow> 'w
     \<Rightarrow> proxy res \<times> 'w" where
  "run_open S env args dir gha built log w =
     (case open_log log stats_default of
        Ok stats \<Rightarrow>
          let s = store_new (path_join dir ''objects'') gha stats (args_config env args);
              (s, w) = load_index S s w in
          (case load_pack S s w of
             Ok (s, w) \<Rightarrow>
               (proxy_new built (args_policy args) s (pa_mitm_ports args) (\<not> pa_no_follow_redirects args), w)
           | Err e \<Rightarrow> (Err e, w)
           | Panic \<Rightarrow> (Panic, w))
      | Err e \<Rightarrow> (Err e, w)
      | Panic \<Rightarrow> (Panic, w))"

text \<open>The process the daemon runs in, and the crates only it uses.\<close>

record 'w boot =
  bt_provider :: bool \<comment> \<open>whether the TLS provider could be installed\<close>
  bt_native :: "bytes list" \<comment> \<open>the platform's roots\<close>
  bt_bind :: "u16 \<Rightarrow> 'w \<Rightarrow> u16 option \<times> 'w" \<comment> \<open>listen on the loopback address; the port\<close>
  bt_client :: bool \<comment> \<open>whether HTTP clients can be built\<close>
  bt_pid :: u32
  bt_state_json :: "state \<Rightarrow> str option"
  bt_summary_json :: "summary \<Rightarrow> str option"

record daemon =
  dm_ca :: ca
  dm_proxy :: proxy
  dm_state :: state

text \<open>The steps of \<open>run\<close> up to the accept loop, in their order; each error ends it.\<close>

definition run_listen ::
  "('w, 'y) os_scheme \<Rightarrow> 'w crypto \<Rightarrow> 'w boot \<Rightarrow> str \<Rightarrow> u16 \<Rightarrow> 'w \<Rightarrow> (ca \<times> str \<times> str \<times> u16) res \<times> 'w" where
  "run_listen M C B dir port w =
     (if \<not> bt_provider B then (Err ''installing rustls crypto provider'', w)
      else case os_create_dir_all M (path_join dir ''objects'') w of
        (False, w) \<Rightarrow> (Err ''creating state directory'', w)
      | (True, w) \<Rightarrow>
          (case ca_generate C w of
             (Err e, w) \<Rightarrow> (Err e, w)
           | (Panic, w) \<Rightarrow> (Panic, w)
           | (Ok ca, w) \<Rightarrow>
               (case write_files (cry_base64 C) (bt_native B) (os_read M) (os_write M) dir ca w of
                  (Err e, w) \<Rightarrow> (Err e, w)
                | (Panic, w) \<Rightarrow> (Panic, w)
                | (Ok (ca_path, bundle_path), w) \<Rightarrow>
                    (case bt_bind B port w of
                       (None, w) \<Rightarrow> (Err ''binding proxy listener'', w)
                     | (Some port, w) \<Rightarrow> (Ok (ca, ca_path, bundle_path, port), w)))))"

definition run_log :: "('w, 'y) os_scheme \<Rightarrow> str \<Rightarrow> 'w \<Rightarrow> str res \<times> 'w" where
  "run_log M log_path w =
     (case os_open_append M log_path w of
        (True, w) \<Rightarrow> (Ok (case os_read M log_path w of None \<Rightarrow> [] | Some c \<Rightarrow> c), w)
      | (False, w) \<Rightarrow> (Err ''opening the request log'', w))"

definition write_state :: "('w, 'y) os_scheme \<Rightarrow> 'w boot \<Rightarrow> str \<Rightarrow> state \<Rightarrow> 'w \<Rightarrow> unit res \<times> 'w" where
  "write_state M B dir st w =
     (case bt_state_json B st of
        None \<Rightarrow> (Err ''encoding state.json'', w)
      | Some json \<Rightarrow>
          (case os_write M (path_join dir ''state.json'') json w of
             (True, w) \<Rightarrow> (Ok (), w) | (False, w) \<Rightarrow> (Err ''writing state.json'', w)))"

definition run_start ::
  "('w, 'y) os_scheme \<Rightarrow> 'w crypto \<Rightarrow> 'w boot \<Rightarrow> ('u, 'h) crates \<Rightarrow> ('w, 'z) sys_scheme \<Rightarrow> str \<Rightarrow> proxy_args \<Rightarrow> 'w
     \<Rightarrow> daemon res \<times> 'w" where
  "run_start M C B L S dir args w =
     (case run_listen M C B dir (pa_port args) w of
        (Err e, w) \<Rightarrow> (Err e, w)
      | (Panic, w) \<Rightarrow> (Panic, w)
      | (Ok (ca, ca_path, bundle_path, port), w) \<Rightarrow>
          let log_path = path_join dir ''requests.log'' in
          (case run_log M log_path w of
             (log, w) \<Rightarrow>
               let gha = gha_from_env (os_env M) (bt_client B) (lib_sha256 L) (lib_hex L) in
               (case run_open S (os_env M) args dir gha (bt_client B) log w of
                  (Err e, w) \<Rightarrow> (Err e, w)
                | (Panic, w) \<Rightarrow> (Panic, w)
                | (Ok p, w) \<Rightarrow>
                    let st = \<lparr>stt_pid = bt_pid B, stt_port = port, stt_ca_path = ca_path,
                          stt_bundle_path = bundle_path, stt_log_path = log_path\<rparr> in
                    (case write_state M B dir st w of
                       (Err e, w) \<Rightarrow> (Err e, w)
                     | (Panic, w) \<Rightarrow> (Panic, w)
                     | (Ok _, w) \<Rightarrow> (Ok \<lparr>dm_ca = ca, dm_proxy = p, dm_state = st\<rparr>, w)))))"

section \<open>After the accept loop\<close>

definition run_close :: "('w, 'z) sys_scheme \<Rightarrow> proxy \<Rightarrow> 'w \<Rightarrow> summary \<times> proxy \<times> 'w" where
  "run_close S p w =
     (let (s, w) = flush S (px_store p) w in
      (stats_summary (sto_stats s), p\<lparr>px_store := s\<rparr>, w))"

text \<open>The lines printed at the end.\<close>

definition run_finish ::
  "('w, 'y) os_scheme \<Rightarrow> 'w boot \<Rightarrow> ('w, 'z) sys_scheme \<Rightarrow> str \<Rightarrow> proxy \<Rightarrow> 'w \<Rightarrow> str list res \<times> 'w" where
  "run_finish M B S dir p w =
     (case run_close S p w of
        (summary, p, w) \<Rightarrow>
          (case bt_summary_json B summary of
             None \<Rightarrow> (Err ''encoding summary.json'', w)
           | Some json \<Rightarrow>
               (case os_write M (path_join dir ''summary.json'') json w of
                  (True, w) \<Rightarrow> (Ok [render summary], w)
                | (False, w) \<Rightarrow> (Err ''writing summary.json'', w))))"

text \<open>\<open>serving\<close> is what happens until the accept loop ends, with what it returned; \<open>None\<close> if it never
  does.\<close>

definition run ::
  "('w, 'y) os_scheme \<Rightarrow> 'w crypto \<Rightarrow> 'w boot \<Rightarrow> ('u, 'h) crates \<Rightarrow> ('w, 'z) sys_scheme \<Rightarrow> str
     \<Rightarrow> (ca \<Rightarrow> proxy \<Rightarrow> 'w \<Rightarrow> (unit res \<times> proxy \<times> 'w) option) \<Rightarrow> proxy_args \<Rightarrow> 'w
     \<Rightarrow> (str list res \<times> 'w) option" where
  "run M C B L S temp_dir serving args w =
     (let dir = resolve_state_dir (os_env M) temp_dir (pa_state_dir args) in
      case run_start M C B L S dir args w of
        (Err e, w) \<Rightarrow> Some (Err e, w)
      | (Panic, w) \<Rightarrow> Some (Panic, w)
      | (Ok d, w) \<Rightarrow>
          (case serving (dm_ca d) (dm_proxy d) w of
             None \<Rightarrow> None
           | Some (Err e, p, w) \<Rightarrow> Some (Err e, w)
           | Some (Panic, p, w) \<Rightarrow> Some (Panic, w)
           | Some (Ok _, p, w) \<Rightarrow> Some (run_finish M B S dir p w)))"

text \<open>The program: a command and its arguments.\<close>

datatype command = Start proxy_args | Run proxy_args | Stop stop_args

definition main_command ::
  "('w, 'y) os_scheme \<Rightarrow> 'w crypto \<Rightarrow> 'w boot \<Rightarrow> ('u, 'h) crates \<Rightarrow> ('w, 'z) sys_scheme \<Rightarrow> bool
     \<Rightarrow> (str \<Rightarrow> state option) \<Rightarrow> (str \<Rightarrow> summary option) \<Rightarrow> bool \<Rightarrow> str
     \<Rightarrow> (ca \<Rightarrow> proxy \<Rightarrow> 'w \<Rightarrow> (unit res \<times> proxy \<times> 'w) option) \<Rightarrow> command \<Rightarrow> 'w
     \<Rightarrow> (str list res \<times> 'w) option" where
  "main_command M C B L S macos parse_state parse_summary runtime temp_dir serving cmd w =
     (case cmd of
        Start args \<Rightarrow> start M macos parse_state temp_dir args w
      | Run args \<Rightarrow>
          if \<not> runtime then Some (Err ''building tokio runtime'', w)
          else run M C B L S temp_dir serving args w
      | Stop args \<Rightarrow>
          if \<not> runtime then Some (Err ''building tokio runtime'', w)
          else stop M macos parse_state parse_summary temp_dir args w)"

section \<open>Lemmas\<close>

lemma unpack_frame: "\<exists>K. fst (unpack S objs s w) = s\<lparr>sto_packed := K\<rparr>"
proof (induction objs arbitrary: s w)
  case Nil
  show ?case by (intro exI [of _ "sto_packed s"]) simp
next
  case (Cons ob objs)
  obtain k b where ob: "ob = (k, b)" by (cases ob)
  obtain ok w1 where wr: "sys_write S (store_path s k) b w = (ok, w1)" by fastforce
  from Cons.IH [of "if ok then s\<lparr>sto_packed := insert k (sto_packed s)\<rparr> else s" w1] show ?case
    by (cases ok) (auto simp: ob wr)
qed

text \<open>A store as \<open>run\<close> hands it to the proxy.\<close>

definition fresh_store :: "store_config \<Rightarrow> store \<Rightarrow> bool" where
  "fresh_store config s \<longleftrightarrow> unused s \<and> sto_tx s \<and> sto_uploader s \<and> \<not> sto_pack_dirty s \<and> sto_config s = config
     \<and> st_entries_stored (sto_stats s) = 0 \<and> st_uploads_failed (sto_stats s) = 0"

lemma load_index_fresh: "load_index S s w = (s', w') \<Longrightarrow> fresh_store config s \<Longrightarrow> fresh_store config s'"
  by (auto simp: load_index_def fresh_store_def unused_def Let_def split: option.splits prod.splits sum.splits)

lemma load_pack_fresh:
  assumes "load_pack S s w = Ok (s', w')" "fresh_store config s"
  shows "fresh_store config s'"
proof -
  have "unpack S objs s v = (s', v') \<Longrightarrow> fresh_store config s \<Longrightarrow> fresh_store config s'" for objs s v s' v'
    using unpack_frame [of S objs s v] by (auto simp: fresh_store_def unused_def)
  moreover have "fresh_store config (s\<lparr>sto_gha := g\<rparr>) = fresh_store config s" for g
    by (simp add: fresh_store_def unused_def)
  ultimately show ?thesis
    using assms by (auto simp: load_pack_def Let_def split: option.splits prod.splits sum.splits res.splits)
qed

lemma run_open_fresh:
  assumes "run_open S env args dir gha built log w = (Ok p, w')"
  shows "fresh_store (args_config env args) (px_store p) \<and> px_policy p = args_policy args
    \<and> px_mitm_ports p = pa_mitm_ports args \<and> \<not> px_shutdown p"
proof -
  obtain contents where log: "log = Ok contents"
    using assms by (cases log) (auto simp: run_open_def open_log_def)
  let ?s0 = "store_new (path_join dir ''objects'') gha (stats_default\<lparr>st_log := Some contents\<rparr>) (args_config env args)"
  obtain s1 w1 where index: "load_index S ?s0 w = (s1, w1)" by fastforce
  from assms log index obtain s2 w2 where pack: "load_pack S s1 w1 = Ok (s2, w2)"
    and p: "proxy_new built (args_policy args) s2 (pa_mitm_ports args) (\<not> pa_no_follow_redirects args) = Ok p"
    by (auto simp: run_open_def open_log_def Let_def split: res.splits prod.splits)
  have "fresh_store (args_config env args) ?s0"
    by (simp add: fresh_store_def unused_def store_new_def stats_default_def)
  from load_pack_fresh [OF pack load_index_fresh [OF index this]] p show ?thesis
    by (auto simp: proxy_new_def split: if_splits)
qed

lemma run_start_steps:
  assumes "run_start M C B L S dir args w = (Ok d, w')"
  shows "\<exists>ca port w1 w2 log w3 json.
      run_listen M C B dir (pa_port args) w
        = (Ok (ca, stt_ca_path (dm_state d), stt_bundle_path (dm_state d), port), w1)
    \<and> run_log M (path_join dir ''requests.log'') w1 = (log, w2)
    \<and> run_open S (os_env M) args dir (gha_from_env (os_env M) (bt_client B) (lib_sha256 L) (lib_hex L))
        (bt_client B) log w2 = (Ok (dm_proxy d), w3)
    \<and> dm_ca d = ca \<and> stt_port (dm_state d) = port
    \<and> bt_state_json B (dm_state d) = Some json
    \<and> os_write M (path_join dir ''state.json'') json w3 = (True, w')"
  using assms
  by (auto simp: run_start_def write_state_def Let_def split: res.splits prod.splits option.splits bool.splits)

lemma run_start_fresh:
  assumes "run_start M C B L S dir args w = (Ok d, w')"
  shows "fresh_store (args_config (os_env M) args) (px_store (dm_proxy d))
    \<and> px_policy (dm_proxy d) = args_policy args \<and> \<not> px_shutdown (dm_proxy d)"
  using run_start_steps [OF assms] run_open_fresh by metis

text \<open>What \<open>serving\<close> stands for: some run of the server, from its start to the end of the accept loop; if
  teardown follows, the uploads still running have been waited for.\<close>

definition serves ::
  "('u, 'h) crates \<Rightarrow> ('w, 'h, 'z) web_scheme \<Rightarrow> 'w crypto
     \<Rightarrow> (ca \<Rightarrow> proxy \<Rightarrow> 'w \<Rightarrow> (unit res \<times> proxy \<times> 'w) option) \<Rightarrow> bool" where
  "serves L N C serving \<longleftrightarrow> (\<forall>c p w r p' w'. serving c p w = Some (r, p', w') \<longrightarrow>
     (\<exists>v. (serve_step L N C)\<^sup>*\<^sup>* (server_start p c w) v \<and> srv_phase v = Ended r
        \<and> srv_proxy v = p' \<and> srv_world v = w' \<and> (r = Ok () \<longrightarrow> srv_running v = [])))"

section \<open>Properties\<close>



text \<open>An error of the listener, a connection reset before it was accepted among them, ends the daemon
  where it is: nothing that waits is uploaded, and neither manifest, pack nor summary is written.\<close>

theorem accept_error_skips_teardown:
  assumes "run_start M C B L S dir args w = (Ok d, w0)" "dir = resolve_state_dir (os_env M) temp_dir (pa_state_dir args)"
    and "(serve_step L N C)\<^sup>*\<^sup>* (server_start (dm_proxy d) (dm_ca d) w0) v" "srv_phase v = Listening"
    and "serving (dm_ca d) (dm_proxy d) w0 = Some (Err msg, srv_proxy v, srv_world v)"
  shows "serve_step L N C v (v\<lparr>srv_phase := Ended (Err msg)\<rparr>)
    \<and> run M C B L S temp_dir serving args w = Some (Err msg, srv_world v)"
  using assms outer_step.accept_failed [OF assms(4)] by (simp add: run_def serve_step_def)

section \<open>Witnesses\<close>

text \<open>The reference files and service as the machine of a job: the service's address is in the
  environment, text files are kept as bytes.\<close>

definition demo_env :: "str \<Rightarrow> str option" where
  "demo_env = [''ACTIONS_RESULTS_URL'' \<mapsto> ''b'', ''ACTIONS_RUNTIME_TOKEN'' \<mapsto> ''t'']"

definition demo_host :: "kv_world os" where
  "demo_host =
     \<lparr>os_env = demo_env, os_read = (\<lambda>p w. None), os_exists = (\<lambda>p w. map_of (kv_files w) p \<noteq> None),
      os_write = (\<lambda>p c w. (True, w\<lparr>kv_files := (p, as_bytes c) # kv_files w\<rparr>)),
      os_remove_file = (\<lambda>p w. w), os_remove_dir_all = (\<lambda>p w. w),
      os_create_dir_all = (\<lambda>p w. (True, w)), os_create = (\<lambda>p w. (True, w)),
      os_try_clone = (\<lambda>p w. True), os_open_append = (\<lambda>p w. (True, w)), os_append = (\<lambda>p c w. (True, w)),
      os_now = (\<lambda>w. 0), os_sleep = (\<lambda>n w. w), os_client = True, os_post = (\<lambda>url w. w),
      os_exe = Some ''cicache'', os_spawn = (\<lambda>exe args out w. (True, w)),
      os_command = (\<lambda>exe args. \<lparr>child_spawn = (\<lambda>w. (True, w)), child_try_wait = (\<lambda>w. Running),
        child_kill = (\<lambda>w. w)\<rparr>)\<rparr>"

definition demo_args :: proxy_args where
  "demo_args = default_args\<lparr>pa_state_dir := Some ''d''\<rparr>"

definition demo_boot :: "kv_world boot" where
  "demo_boot = \<lparr>bt_provider = True, bt_native = [[1]], bt_bind = (\<lambda>port w. (Some 8080, w)), bt_client = True,
     bt_pid = 1, bt_state_json = (\<lambda>st. Some ''{}''), bt_summary_json = (\<lambda>sm. Some ''{}'')\<rparr>"

lemma demo_listens:
  "\<exists>c ca_path bundle_path w. run_listen demo_host demo_keys demo_boot ''d'' port kv_empty
     = (Ok (c, ca_path, bundle_path, 8080), w) \<and> kv_entries w = [] \<and> kv_budget w = 9"
  by (simp add: run_listen_def demo_host_def demo_keys_def demo_boot_def ca_generate_def write_files_def
      trust_bundle_def pem_encode_def Let_def kv_empty_def)

lemma demo_opens:
  assumes "kv_entries w = []" "kv_budget w = 9" "\<not> gha_exhausted g"
  shows "\<exists>p w'. run_open kv_sys demo_env demo_args ''d'' (Some g) True (Ok []) w = (Ok p, w')
    \<and> sto_gha (px_store p) \<noteq> None"
  using assms
  by (simp add: demo_args_def default_args_def run_open_def open_log_def load_index_def load_pack_def store_new_def proxy_new_def gha_get_scoped_def
      gha_fetch_def gha_rpc_def kv_net_def is_success_def Let_def)

lemma demo_service: "\<exists>g. gha_from_env demo_env True id of_bytes = Some g \<and> \<not> gha_exhausted g"
  by (simp add: gha_from_env_def demo_env_def)

lemma demo_starts:
  "\<exists>d w. run_start demo_host demo_keys demo_boot demo_crates kv_sys ''d'' demo_args kv_empty = (Ok d, w)
     \<and> sto_gha (px_store (dm_proxy d)) \<noteq> None"
proof -
  obtain c ca_path bundle_path w where listen: "run_listen demo_host demo_keys demo_boot ''d'' (pa_port demo_args) kv_empty
      = (Ok (c, ca_path, bundle_path, 8080), w)" and w: "kv_entries w = []" "kv_budget w = 9"
    using demo_listens by blast
  obtain g where g: "gha_from_env demo_env True id of_bytes = Some g" "\<not> gha_exhausted g"
    using demo_service by blast
  obtain p w' where "run_open kv_sys demo_env demo_args ''d'' (Some g) True (Ok []) w = (Ok p, w')"
    "sto_gha (px_store p) \<noteq> None"
    using demo_opens [OF w g(2)] by blast
  moreover have "run_log demo_host (path_join ''d'' ''requests.log'') w = (Ok [], w)"
    by (simp add: run_log_def demo_host_def)
  moreover have "os_env demo_host = demo_env" "bt_client demo_boot" by (simp_all add: demo_host_def demo_boot_def)
  ultimately show ?thesis
    using listen g by (simp add: run_start_def write_state_def) (simp add: demo_host_def demo_boot_def)
qed

text \<open>A daemon that is told to stop before any connection is made.\<close>

definition idle :: "ca \<Rightarrow> proxy \<Rightarrow> 'w \<Rightarrow> (unit res \<times> proxy \<times> 'w) option" where
  "idle c p w = Some (Ok (), p\<lparr>px_shutdown := True\<rparr>, w)"

lemma idle_serves: "serves L N C idle"
proof -
  have "(serve_step L N C)\<^sup>*\<^sup>* (server_start p c w)
      ((server_start p c w)\<lparr>srv_phase := Ended (Ok ()), srv_proxy := p\<lparr>px_shutdown := True\<rparr>\<rparr>)" for c p w
    using outer_step.signal [of "server_start p c w"] by (auto simp: serve_step_def server_start_def)
  then show ?thesis
    by (fastforce simp: serves_def idle_def server_start_def)
qed



theorem accept_error_skips_teardown_witness:
  "\<exists>w. run demo_host demo_keys demo_boot demo_crates kv_sys ''/tmp'' (\<lambda>c p w. Some (Err ''reset'', p, w))
     demo_args kv_empty = Some (Err ''reset'', w)"
proof -
  have dir: "''d'' = resolve_state_dir (os_env demo_host) ''/tmp'' (pa_state_dir demo_args)"
    by (simp add: resolve_state_dir_def demo_args_def)
  from demo_starts obtain d w where
    run: "run_start demo_host demo_keys demo_boot demo_crates kv_sys ''d'' demo_args kv_empty = (Ok d, w)" by blast
  have "srv_phase (server_start (dm_proxy d) (dm_ca d) w) = Listening" by (simp add: server_start_def)
  from accept_error_skips_teardown [OF run dir rtranclp.rtrancl_refl this, of
      "\<lambda>c p w. Some (Err ''reset'', p, w)" "''reset''"]
  show ?thesis by (auto simp: server_start_def)
qed

end
