(* ===== verification/Service.thy ===== *)
theory Service
  imports Daemon
begin

text \<open>
  What one job leaves to the next. The cache service is not part of the program; here is what its
  documentation promises as an abstract specification, the proof that the client of \<open>Gha\<close> implements
  the two operations the store wants on top of it (a write-once insertion and a lookup of the newest
  match), and what follows for two jobs run one after the other.
\<close>

section \<open>The service\<close>

text \<open>
  A service, seen through the world: its finished entries, newest first, the calls it will still
  answer, the URL each reserved key is to be uploaded to, what was uploaded to a URL, and what a URL
  it handed out for download gives.
\<close>

record 'w service =
  sv_entries :: "'w \<Rightarrow> (str \<times> bytes) list"
  sv_calls :: "'w \<Rightarrow> nat"
  sv_slot :: "'w \<Rightarrow> str \<rightharpoonup> str"
  sv_blob :: "'w \<Rightarrow> str \<rightharpoonup> bytes"
  sv_offer :: "'w \<Rightarrow> str \<rightharpoonup> bytes"

definition held :: "(str \<times> bytes) list \<Rightarrow> str set" where
  "held es = fst ` set es"

definition newest :: "str \<Rightarrow> str list \<Rightarrow> (str \<times> bytes) list \<Rightarrow> bytes option" where
  "newest k rs es = map_option snd (find (\<lambda>(e, b). e = k \<or> (\<exists>r \<in> set rs. prefix r e)) es)"

text \<open>Entries are immutable: a key that is held is not replaced.\<close>

definition keep_first :: "str \<Rightarrow> bytes \<Rightarrow> (str \<times> bytes) list \<Rightarrow> (str \<times> bytes) list" where
  "keep_first k b es = (if k \<in> held es then es else (k, b) # es)"

text \<open>
  Reserving a held key is refused, a free one gets an upload URL; what was uploaded becomes an entry
  when it is finalized; the newest match is offered for download, and what is offered can be
  downloaded; each call counts against the allowance.
\<close>

definition answers_create :: "('w, 'z) net_scheme \<Rightarrow> 'w service \<Rightarrow> bool" where
  "answers_create N V \<longleftrightarrow> (\<forall>url t k v w x w'. net_post N url t (CreateRequest k v) w = (x, w')
     \<longrightarrow> k \<noteq> [] \<longrightarrow> 0 < sv_calls V w
     \<longrightarrow> sv_entries V w' = sv_entries V w \<and> Suc (sv_calls V w') = sv_calls V w
       \<and> (if k \<in> held (sv_entries V w)
          then \<exists>text. x = Some (409, text) \<and> contains text ''already_exists''
          else \<exists>text r. x = Some (200, text) \<and> net_parse_create N text = Some r \<and> cr_ok r
            \<and> cr_signed_upload_url r \<noteq> [] \<and> sv_slot V w' k = Some (cr_signed_upload_url r)))"

definition answers_upload :: "('w, 'z) net_scheme \<Rightarrow> 'w service \<Rightarrow> bool" where
  "answers_upload N V \<longleftrightarrow> (\<forall>url n b w x w'. net_put N url n b w = (x, w')
     \<longrightarrow> x = Some 201 \<and> sv_entries V w' = sv_entries V w \<and> sv_calls V w' = sv_calls V w
       \<and> sv_slot V w' = sv_slot V w \<and> sv_blob V w' url = Some b)"

definition answers_finalize :: "('w, 'z) net_scheme \<Rightarrow> 'w service \<Rightarrow> bool" where
  "answers_finalize N V \<longleftrightarrow> (\<forall>url t k v n w x w' u b. net_post N url t (FinalizeUploadRequest k v n) w = (x, w')
     \<longrightarrow> sv_slot V w k = Some u \<longrightarrow> sv_blob V w u = Some b \<longrightarrow> k \<notin> held (sv_entries V w) \<longrightarrow> 0 < sv_calls V w
     \<longrightarrow> sv_entries V w' = (k, b) # sv_entries V w \<and> Suc (sv_calls V w') = sv_calls V w
       \<and> (\<exists>text r. x = Some (200, text) \<and> net_parse_finalize N text = Some r \<and> fr_ok r))"

definition answers_lookup :: "('w, 'z) net_scheme \<Rightarrow> 'w service \<Rightarrow> bool" where
  "answers_lookup N V \<longleftrightarrow> (\<forall>url t k v rs w x w'. net_post N url t (DownloadRequest k v rs) w = (x, w')
     \<longrightarrow> k \<noteq> [] \<longrightarrow> [] \<notin> set rs \<longrightarrow> 0 < sv_calls V w
     \<longrightarrow> sv_entries V w' = sv_entries V w \<and> Suc (sv_calls V w') = sv_calls V w
       \<and> (\<exists>text r. x = Some (200, text) \<and> net_parse_download N text = Some r
         \<and> (case newest k rs (sv_entries V w) of
              None \<Rightarrow> \<not> dr_ok r
            | Some b \<Rightarrow> dr_ok r \<and> dr_signed_download_url r \<noteq> []
                \<and> sv_offer V w' (dr_signed_download_url r) = Some b)))"

definition answers_download :: "('w, 'z) net_scheme \<Rightarrow> 'w service \<Rightarrow> bool" where
  "answers_download N V \<longleftrightarrow> (\<forall>url w x w' b. net_get N url w = (x, w') \<longrightarrow> sv_offer V w url = Some b
     \<longrightarrow> x = Some (200, Some b) \<and> sv_entries V w' = sv_entries V w \<and> sv_calls V w' = sv_calls V w)"

definition service_laws :: "('w, 'z) net_scheme \<Rightarrow> 'w service \<Rightarrow> bool" where
  "service_laws N V \<longleftrightarrow> answers_create N V \<and> answers_upload N V \<and> answers_finalize N V
     \<and> answers_lookup N V \<and> answers_download N V"

text \<open>The local disk is not the service.\<close>

definition disk_apart :: "('w, 'z) sys_scheme \<Rightarrow> 'w service \<Rightarrow> bool" where
  "disk_apart S V \<longleftrightarrow> (\<forall>p b w. sv_entries V (snd (sys_write S p b w)) = sv_entries V w
     \<and> sv_calls V (snd (sys_write S p b w)) = sv_calls V w)"

section \<open>The client on top of it\<close>

lemma held_simps [simp]: "held [] = {}" "held (e # es) = insert (fst e) (held es)" "held (xs @ ys) = held xs \<union> held ys"
  by (auto simp: held_def)

lemma newest_exact: "newest k [] es = map_of es k"
  by (induction es) (auto simp: newest_def)

lemma newest_skip: "(\<And>e. e \<in> held es \<Longrightarrow> e \<noteq> k \<and> (\<forall>r \<in> set rs. \<not> prefix r e)) \<Longrightarrow> newest k rs (es @ fs) = newest k rs fs"
proof (induction es)
  case (Cons e es)
  then have "fst e \<noteq> k \<and> (\<forall>r \<in> set rs. \<not> prefix r (fst e))" by simp
  with Cons show ?case by (cases e) (simp add: newest_def)
qed simp

lemma gha_put_served:
  assumes laws: "service_laws N V" and k: "k \<noteq> []" and calls: "2 \<le> sv_calls V w" and g: "\<not> gha_exhausted g"
  shows "\<exists>w'. gha_put N g k b w = (Inr (k \<notin> held (sv_entries V w)), g, w')
    \<and> sv_entries V w' = keep_first k b (sv_entries V w) \<and> sv_calls V w \<le> sv_calls V w' + 2"
proof -
  let ?url = "gha_base g @ SERVICE @ ''/'' @ ''CreateCacheEntry''"
  obtain x w1 where create: "net_post N ?url (gha_token g) (CreateRequest k (gha_version g)) w = (x, w1)" by fastforce
  with laws k calls have kept: "sv_entries V w1 = sv_entries V w" "Suc (sv_calls V w1) = sv_calls V w"
    and answer: "if k \<in> held (sv_entries V w)
        then \<exists>msg. x = Some (409, msg) \<and> contains msg ''already_exists''
        else \<exists>msg r. x = Some (200, msg) \<and> net_parse_create N msg = Some r \<and> cr_ok r
          \<and> cr_signed_upload_url r \<noteq> [] \<and> sv_slot V w1 k = Some (cr_signed_upload_url r)"
    unfolding service_laws_def answers_create_def by (fastforce split del: if_split)+
  show ?thesis
  proof (cases "k \<in> held (sv_entries V w)")
    case True
    with answer obtain msg where x: "x = Some (409, msg)" "contains msg ''already_exists''" by auto
    have "contains (rpc_error N ''CreateCacheEntry'' 409 msg) ''already_exists''"
      using contains_append [OF x(2), of "''CreateCacheEntry returned '' @ net_show_status N 409 @ '': ''" "[]"]
      by (simp add: rpc_error_def)
    then show ?thesis
      using True x create kept g
      by (simp add: gha_put_def gha_rpc_def is_success_def is_already_exists_def keep_first_def)
  next
    case False
    with answer obtain msg r where x: "x = Some (200, msg)" "net_parse_create N msg = Some r" "cr_ok r"
      "cr_signed_upload_url r \<noteq> []" and slot: "sv_slot V w1 k = Some (cr_signed_upload_url r)" by auto
    obtain y w2 where upload: "net_put N (cr_signed_upload_url r) (dec (length b)) b w1 = (y, w2)" by fastforce
    with laws have put: "y = Some 201" "sv_entries V w2 = sv_entries V w1" "sv_calls V w2 = sv_calls V w1"
      "sv_slot V w2 = sv_slot V w1" "sv_blob V w2 (cr_signed_upload_url r) = Some b"
      unfolding service_laws_def answers_upload_def by blast+
    obtain z w3 where finish: "net_post N (gha_base g @ SERVICE @ ''/'' @ ''FinalizeCacheEntryUpload'') (gha_token g)
        (FinalizeUploadRequest k (gha_version g) (dec (length b))) w2 = (z, w3)" by fastforce
    have "0 < sv_calls V w2" "k \<notin> held (sv_entries V w2)" using kept put calls False by auto
    with laws finish slot put have "sv_entries V w3 = (k, b) # sv_entries V w2" "Suc (sv_calls V w3) = sv_calls V w2"
      "\<exists>msg r. z = Some (200, msg) \<and> net_parse_finalize N msg = Some r \<and> fr_ok r"
      unfolding service_laws_def answers_finalize_def by metis+
    then show ?thesis
      using False x create upload put finish kept g
      by (auto simp: gha_put_def gha_rpc_def is_success_def keep_first_def)
  qed
qed

lemma gha_fetch_served:
  assumes laws: "service_laws N V" and k: "k \<noteq> []" "[] \<notin> set rs" and calls: "0 < sv_calls V w"
    and g: "\<not> gha_exhausted g"
  shows "\<exists>w'. gha_fetch N g k rs w = (Inr (newest k rs (sv_entries V w)), g, w')
    \<and> sv_entries V w' = sv_entries V w \<and> sv_calls V w = Suc (sv_calls V w')"
proof -
  obtain x w1 where ask: "net_post N (gha_base g @ SERVICE @ ''/'' @ ''GetCacheEntryDownloadURL'') (gha_token g)
      (DownloadRequest k (gha_version g) rs) w = (x, w1)" by fastforce
  with laws k calls obtain msg r where x: "x = Some (200, msg)" "net_parse_download N msg = Some r"
    and kept: "sv_entries V w1 = sv_entries V w" "Suc (sv_calls V w1) = sv_calls V w"
    and answer: "case newest k rs (sv_entries V w) of None \<Rightarrow> \<not> dr_ok r
      | Some b \<Rightarrow> dr_ok r \<and> dr_signed_download_url r \<noteq> [] \<and> sv_offer V w1 (dr_signed_download_url r) = Some b"
    unfolding service_laws_def answers_lookup_def by metis
  show ?thesis
  proof (cases "newest k rs (sv_entries V w)")
    case None
    with answer x ask kept g show ?thesis by (simp add: gha_fetch_def gha_rpc_def is_success_def)
  next
    case (Some b)
    obtain y w2 where get: "net_get N (dr_signed_download_url r) w1 = (y, w2)" by fastforce
    have offer: "sv_offer V w1 (dr_signed_download_url r) = Some b" using answer Some by simp
    have "answers_download N V" using laws by (simp add: service_laws_def)
    with get offer have "y = Some (200, Some b)" "sv_entries V w2 = sv_entries V w1" "sv_calls V w2 = sv_calls V w1"
      unfolding answers_download_def by blast+
    with Some answer x ask kept g get show ?thesis by (simp add: gha_fetch_def gha_rpc_def is_success_def)
  qed
qed

lemma same_gha: "sto_gha s = Some g \<Longrightarrow> s\<lparr>sto_gha := Some g\<rparr> = s"
  by (cases s) simp

text \<open>A store whose client may still call, with the calls it needs.\<close>

definition served :: "'w service \<Rightarrow> nat \<Rightarrow> gha \<Rightarrow> store \<Rightarrow> 'w \<Rightarrow> bool" where
  "served V n g s w \<longleftrightarrow> sto_gha s = Some g \<and> \<not> gha_exhausted g \<and> n \<le> sv_calls V w"

definition keep_all :: "(str \<times> bytes) list \<Rightarrow> (str \<times> bytes) list \<Rightarrow> (str \<times> bytes) list" where
  "keep_all items es = fold (\<lambda>(k, b). keep_first k b) items es"

lemma keep_first_extends: "\<exists>fs. keep_first k b es = fs @ es \<and> held fs \<subseteq> {k}"
proof (cases "k \<in> held es")
  case True
  then show ?thesis by (intro exI [of _ "[]"]) (simp add: keep_first_def)
next
  case False
  then show ?thesis by (intro exI [of _ "[(k, b)]"]) (simp add: keep_first_def)
qed

lemma keep_all_simps [simp]:
  "keep_all [] es = es" "keep_all ((k, b) # items) es = keep_all items (keep_first k b es)"
  by (simp_all add: keep_all_def)

lemma keep_all_extends: "\<exists>fs. keep_all items es = fs @ es \<and> held fs \<subseteq> held items"
proof (induction items arbitrary: es)
  case (Cons item items)
  obtain k b where item: "item = (k, b)" by (cases item)
  obtain fs where fs: "keep_first k b es = fs @ es" "held fs \<subseteq> {k}" using keep_first_extends by blast
  from Cons.IH [of "fs @ es"] obtain gs where "keep_all items (fs @ es) = gs @ fs @ es" "held gs \<subseteq> held items" by blast
  with fs item show ?case by (intro exI [of _ "gs @ fs"]) auto
qed simp

lemma map_of_keep_first: "map_of (keep_first k b es) j = (if j = k \<and> k \<notin> held es then Some b else map_of es j)"
  by (auto simp: keep_first_def)

lemma held_keep_first: "held (keep_first k b es) = insert k (held es)"
  by (auto simp: keep_first_def)

lemma map_of_held: "k \<in> held es \<longleftrightarrow> map_of es k \<noteq> None"
  by (auto simp: held_def map_of_eq_None_iff)

lemma map_of_keep_all:
  "distinct (map fst items) \<Longrightarrow> (k, b) \<in> set items \<Longrightarrow> k \<notin> held es \<Longrightarrow> map_of (keep_all items es) k = Some b"
proof (induction items arbitrary: es)
  case (Cons item items)
  obtain j c where item: "item = (j, c)" by (cases item)
  have later: "map_of (keep_all items fs) j = map_of fs j" if "j \<in> held fs" for fs
    using keep_all_extends [of items fs] that by (auto simp: map_of_held map_add_def split: option.splits)
      (metis (no_types, lifting) Cons.prems(1) distinct.simps(2) held_def image_set item list.simps(9) map_of_eq_None_iff
        option.distinct(1) fst_conv subsetD)
  show ?case
  proof (cases "k = j")
    case True
    with Cons.prems item have "c = b" by (auto simp: rev_image_eqI)
    with True item Cons.prems(3) later [of "keep_first j c es"] show ?thesis
      by (simp add: held_keep_first map_of_keep_first)
  next
    case False
    with Cons item show ?thesis by (simp add: held_keep_first)
  qed
qed simp

lemma upload_served:
  assumes laws: "service_laws S V" and s: "served V (Suc (Suc n)) g s w" and k: "k \<noteq> []"
    and up: "upload_task S (k, b) s w = (s', w')"
  shows "served V n g s' w' \<and> sv_entries V w' = keep_first k b (sv_entries V w)
    \<and> sto_index s' = insert k (sto_index s) \<and> (sto_index_dirty s' \<longleftrightarrow> sto_index_dirty s \<or> k \<notin> sto_index s)
    \<and> sto_config s' = sto_config s"
proof -
  have g: "sto_gha s = Some g" "\<not> gha_exhausted g" "2 \<le> sv_calls V w" "Suc (Suc n) \<le> sv_calls V w"
    using s by (simp_all add: served_def)
  from gha_put_served [OF laws k g(3,2), of b] obtain w1 where
    put: "gha_put S g k b w = (Inr (k \<notin> held (sv_entries V w)), g, w1)"
    and w1: "sv_entries V w1 = keep_first k b (sv_entries V w)" "sv_calls V w \<le> sv_calls V w1 + 2" by blast
  have "s' = upload_result k b (Inr (k \<notin> held (sv_entries V w))) (s\<lparr>sto_gha := Some g\<rparr>)" "w' = w1"
    using up g(1) put by (simp_all add: upload_task_def)
  with g w1 show ?thesis
    by (cases "k \<in> held (sv_entries V w)") (auto simp: served_def upload_result_def confirm_def)
qed

lemma drain_served:
  assumes "service_laws S V" "served V (2 * length items + n) g s w" "[] \<notin> held items"
    and "drain S items s w = (s', w')"
  shows "served V n g s' w' \<and> sv_entries V w' = keep_all items (sv_entries V w)
    \<and> sto_index s' = sto_index s \<union> held items
    \<and> (sto_index_dirty s' \<longleftrightarrow> sto_index_dirty s \<or> \<not> held items \<subseteq> sto_index s) \<and> sto_config s' = sto_config s"
  using assms(2-4)
proof (induction items arbitrary: s w)
  case Nil
  then show ?case by (auto simp: served_def)
next
  case (Cons item items)
  obtain k b where item: "item = (k, b)" by (cases item)
  obtain s1 w1 where up: "upload_task S (k, b) s w = (s1, w1)" by fastforce
  have "served V (Suc (Suc (2 * length items + n))) g s w" "k \<noteq> []" using Cons.prems item by auto
  from upload_served [OF assms(1) this up] Cons.IH [of s1 w1] Cons.prems item up show ?case by auto
qed

definition run_id :: "('w, 'z) net_scheme \<Rightarrow> str" where
  "run_id N = (case net_env N ''GITHUB_RUN_ID'' of None \<Rightarrow> ''local'' | Some r \<Rightarrow> r)"

abbreviation own_key :: "('w, 'z) net_scheme \<Rightarrow> store_config \<Rightarrow> str \<Rightarrow> nat \<Rightarrow> str" where
  "own_key N c kind stamp \<equiv> scoped_key (cfg_key_prefix c) (cfg_scope c) kind stamp (run_id N)"

lemma own_key_nonempty [simp]: "own_key N c kind stamp \<noteq> []"
  by (simp add: scoped_key_def scoped_prefix_def)

lemma save_index_served:
  assumes "service_laws S V" "served V (Suc (Suc n)) g s w" "sto_index_dirty s"
    and "\<And>stamp. own_key S (sto_config s) ''index'' stamp \<notin> held (sv_entries V w)"
    and "save_index S s w = (s', w')"
  shows "s' = s \<and> served V n g s' w'
    \<and> (\<exists>stamp. sv_entries V w' = (own_key S (sto_config s) ''index'' stamp, manifest_body (sto_index s)) # sv_entries V w)"
proof -
  let ?k = "own_key S (sto_config s) ''index'' (net_now S w)"
  have g: "sto_gha s = Some g" "\<not> gha_exhausted g" "2 \<le> sv_calls V w" "Suc (Suc n) \<le> sv_calls V w"
    using assms(2) by (simp_all add: served_def)
  from gha_put_served [OF assms(1) own_key_nonempty g(3,2)] obtain w1 where
    put: "gha_put S g ?k (manifest_body (sto_index s)) w = (Inr (?k \<notin> held (sv_entries V w)), g, w1)"
    and w1: "sv_entries V w1 = keep_first ?k (manifest_body (sto_index s)) (sv_entries V w)"
      "sv_calls V w \<le> sv_calls V w1 + 2" by blast
  have "s' = s\<lparr>sto_gha := Some g\<rparr>" "w' = w1"
    using assms(3,5) g(1) put by (simp_all add: save_index_def gha_put_scoped_def run_id_def Let_def)
  with g w1 assms(4) [of "net_now S w"] show ?thesis by (auto simp: same_gha served_def keep_first_def)
qed

lemma save_pack_served:
  assumes "service_laws S V" "served V 2 g s w" "save_pack S s w = (s', w')"
  shows "\<exists>es stamp. sv_entries V w' = es @ sv_entries V w \<and> held es \<subseteq> {own_key S (sto_config s) ''pack'' stamp}"
proof (cases "w' = w")
  case True
  then show ?thesis by (intro exI [of _ "[]"]) simp
next
  case False
  let ?k = "own_key S (sto_config s) ''pack'' (net_now S w)"
    and ?b = "pack_encode (read_objects S s w (sorted_list_of_set (sto_packed s))) (cfg_pack_limit (sto_config s))"
  have g: "sto_gha s = Some g" "\<not> gha_exhausted g" "2 \<le> sv_calls V w"
    using assms(2) by (simp_all add: served_def)
  from gha_put_served [OF assms(1) own_key_nonempty g(3,2)] obtain w1 where
    put: "gha_put S g ?k ?b w = (Inr (?k \<notin> held (sv_entries V w)), g, w1)"
    and w1: "sv_entries V w1 = keep_first ?k ?b (sv_entries V w)" by blast
  have "w' = w1"
    using assms(3) g(1) put False
    by (auto simp: save_pack_def gha_put_scoped_def run_id_def Let_def split: if_splits)
  with w1 keep_first_extends [of ?k ?b "sv_entries V w"] show ?thesis by auto
qed

section \<open>One job's end, the next one's start\<close>

lemma flush_served:
  assumes laws: "service_laws S V" and s: "served V (2 * length (sto_channel s) + 4) g s w" "sto_uploader s"
    and items: "[] \<notin> held (sto_channel s)" "\<not> held (sto_channel s) \<subseteq> sto_index s"
    and fresh: "\<And>stamp. own_key S (sto_config s) ''index'' stamp \<notin> held (sv_entries V w) \<union> held (sto_channel s)"
    and flush: "flush S s w = (s', w')"
  shows "\<exists>es t u. sv_entries V w' = es @ (own_key S (sto_config s) ''index'' t,
        manifest_body (sto_index s \<union> held (sto_channel s))) # keep_all (sto_channel s) (sv_entries V w)
    \<and> held es \<subseteq> {own_key S (sto_config s) ''pack'' u}"
proof -
  let ?s = "s\<lparr>sto_tx := False, sto_uploader := False\<rparr>" and ?c = "sto_channel s"
  obtain s1 w1 s2 w2 where drained: "drain S ?c ?s w = (s1, w1)"
    and index: "save_index S s1 w1 = (s2, w2)" and pack: "save_pack S s2 w2 = (s', w')"
    using flush s(2) by (auto simp: flush_def Let_def split: prod.splits)
  have "served V (2 * length ?c + 4) g ?s w" using s(1) by (simp add: served_def)
  from drain_served [OF laws this items(1) drained] have
    s1: "served V (Suc (Suc 2)) g s1 w1" "sto_index s1 = sto_index s \<union> held ?c" "sto_index_dirty s1"
      "sto_config s1 = sto_config s" and w1: "sv_entries V w1 = keep_all ?c (sv_entries V w)"
    using items(2) by auto
  have "own_key S (sto_config s1) ''index'' stamp \<notin> held (sv_entries V w1)" for stamp
    using fresh [of stamp] keep_all_extends [of ?c "sv_entries V w"] s1(4) w1 by auto
  from save_index_served [OF laws s1(1,3) this index] obtain t where
    s2: "s2 = s1" "served V 2 g s2 w2" and w2: "sv_entries V w2
        = (own_key S (sto_config s1) ''index'' t, manifest_body (sto_index s1)) # sv_entries V w1" by blast
  from save_pack_served [OF laws s2(2) pack] w2 s2(1) s1 w1 show ?thesis by auto
qed

lemma load_index_served:
  assumes laws: "service_laws S V" and s: "served V (Suc n) g s w"
    and found: "newest (scoped_prefix (cfg_key_prefix (sto_config s)) (cfg_scope (sto_config s)) ''index'')
      [scoped_prefix (cfg_key_prefix (sto_config s)) (cfg_scope (sto_config s)) ''index''] (sv_entries V w)
        = Some (manifest_body I)"
    and I: "finite I" "\<forall>k \<in> I. manifest_key k"
    and load: "load_index S s w = (s', w')"
  shows "s' = s\<lparr>sto_index := sto_index s \<union> I\<rparr> \<and> served V n g s' w' \<and> sv_entries V w' = sv_entries V w"
proof -
  let ?p = "scoped_prefix (cfg_key_prefix (sto_config s)) (cfg_scope (sto_config s)) ''index''"
  have g: "sto_gha s = Some g" "\<not> gha_exhausted g" "0 < sv_calls V w" using s by (simp_all add: served_def)
  have "?p \<noteq> []" by (simp add: scoped_prefix_def)
  with gha_fetch_served [OF laws _ _ g(3,2), of ?p "[?p]"] found obtain w1 where
    get: "gha_fetch S g ?p [?p] w = (Inr (Some (manifest_body I)), g, w1)"
    and w1: "sv_entries V w1 = sv_entries V w" "sv_calls V w = Suc (sv_calls V w1)" by auto
  have "s' = s\<lparr>sto_gha := Some g, sto_index := sto_index s \<union> I\<rparr>" "w' = w1"
    using load g(1) get I
    by (simp_all add: load_index_def gha_get_scoped_def manifest_keys_body Un_commute flip: union_set_fold)
  with s w1 g show ?thesis by (simp add: same_gha served_def)
qed

lemma unpack_apart:
  assumes "disk_apart S V" "unpack S objs s w = (s', w')"
  shows "sv_entries V w' = sv_entries V w \<and> sv_calls V w' = sv_calls V w"
  using assms(2)
proof (induction objs arbitrary: s w)
  case (Cons ob objs)
  obtain k b where ob: "ob = (k, b)" by (cases ob)
  obtain ok w1 where wr: "sys_write S (store_path s k) b w = (ok, w1)" by fastforce
  have "sv_entries V (snd (sys_write S (store_path s k) b w)) = sv_entries V w
      \<and> sv_calls V (snd (sys_write S (store_path s k) b w)) = sv_calls V w"
    using assms(1) unfolding disk_apart_def by blast
  with Cons wr ob show ?case by (simp split: if_splits)
qed simp

lemma load_pack_served:
  assumes laws: "service_laws S V" "disk_apart S V" and s: "served V (Suc n) g s w"
    and load: "load_pack S s w = Ok (s', w')"
  shows "served V n g s' w' \<and> sv_entries V w' = sv_entries V w \<and> sto_index s' = sto_index s
    \<and> sto_remote_misses s' = sto_remote_misses s \<and> sto_objects s' = sto_objects s \<and> sto_config s' = sto_config s"
proof -
  let ?p = "scoped_prefix (cfg_key_prefix (sto_config s)) (cfg_scope (sto_config s)) ''pack''"
  have g: "sto_gha s = Some g" "\<not> gha_exhausted g" "0 < sv_calls V w" using s by (simp_all add: served_def)
  have "?p \<noteq> []" by (simp add: scoped_prefix_def)
  with gha_fetch_served [OF laws(1) _ _ g(3,2), of ?p "[?p]"] obtain w1 where
    get: "gha_fetch S g ?p [?p] w = (Inr (newest ?p [?p] (sv_entries V w)), g, w1)"
    and w1: "sv_entries V w1 = sv_entries V w" "sv_calls V w = Suc (sv_calls V w1)" by auto
  then have ok: "served V n g s w1" using s by (simp add: served_def)
  have "s' = s \<and> w' = w1 \<or> (\<exists>objs. unpack S objs s w1 = (s', w'))"
    using load g(1) get
    by (auto simp: load_pack_def gha_get_scoped_def same_gha Let_def split: option.splits res.splits)
  then show ?thesis
  proof (elim disjE conjE exE)
    fix objs
    assume run: "unpack S objs s w1 = (s', w')"
    obtain K where "s' = s\<lparr>sto_packed := K\<rparr>" using unpack_frame [of S objs s w1] run by auto
    with unpack_apart [OF laws(2) run] ok w1 show ?thesis by (simp add: served_def)
  qed (use ok w1 in simp)
qed

lemma store_get_served:
  assumes laws: "service_laws S V" and s: "served V 1 g s w" "k \<in> sto_index s" "k \<notin> sto_remote_misses s" "k \<noteq> []"
    and held: "map_of (sv_entries V w) k = Some b" "sys_read S (store_path s k) w = None"
  shows "\<exists>w'. store_get S k s w = (Some b, s, w')"
proof -
  have g: "sto_gha s = Some g" "\<not> gha_exhausted g" "0 < sv_calls V w" using s by (simp_all add: served_def)
  from gha_fetch_served [OF laws s(4) _ g(3,2), of "[]"] held(1) obtain w1 where
    "gha_get S g k w = (Inr (Some b), g, w1)" by (auto simp: gha_get_def newest_exact)
  with g s held(2) show ?thesis
    by (auto simp: store_get_def same_gha Let_def split: prod.splits)
qed

lemma newest_own:
  assumes "\<And>e. e \<in> held later \<Longrightarrow> \<not> prefix (scoped_prefix pre scope ''index'') e"
    and "held es \<subseteq> {scoped_key pre scope ''pack'' u (run_id N)}"
  shows "newest (scoped_prefix pre scope ''index'') [scoped_prefix pre scope ''index'']
    (later @ es @ (scoped_key pre scope ''index'' t (run_id N), b) # fs) = Some b"
proof -
  let ?p = "scoped_prefix pre scope ''index''"
  have "\<not> prefix ?p (scoped_key pre scope ''pack'' u (run_id N))" using scoped_kinds_disjoint [of "[]"] by simp
  then have "newest ?p [?p] (later @ es @ fs') = newest ?p [?p] fs'" for fs'
    using newest_skip [of later ?p "[?p]" "es @ fs'"] newest_skip [of es ?p "[?p]" fs'] assms by fastforce
  then show ?thesis by (simp add: newest_def scoped_key_def)
qed

lemma run_open_served:
  assumes "service_laws N V" "disk_apart N V"
    and "run_open N env args dir (Some g) built log w = (Ok q, w')" "\<not> gha_exhausted g" "3 \<le> sv_calls V w"
    and "c = args_config env args" "finite I" "\<forall>k \<in> I. manifest_key k"
    and "newest (scoped_prefix (cfg_key_prefix c) (cfg_scope c) ''index'')
      [scoped_prefix (cfg_key_prefix c) (cfg_scope c) ''index''] (sv_entries V w) = Some (manifest_body I)"
  shows "served V 1 g (px_store q) w' \<and> sv_entries V w' = sv_entries V w \<and> I \<subseteq> sto_index (px_store q)
    \<and> sto_remote_misses (px_store q) = {}"
proof -
  obtain contents where log: "log = Ok contents"
    using assms(3) by (cases log) (auto simp: run_open_def open_log_def)
  let ?s0 = "store_new (path_join dir ''objects'') (Some g) (stats_default\<lparr>st_log := Some contents\<rparr>) c"
  obtain s1 v1 where index: "load_index N ?s0 w = (s1, v1)" by fastforce
  from assms(3,6) log index obtain s2 where pack: "load_pack N s1 v1 = Ok (s2, w')" and q: "px_store q = s2"
    by (auto simp: run_open_def open_log_def proxy_new_def Let_def split: res.splits prod.splits if_splits)
  have "served V (Suc 2) g ?s0 w" using assms(4,5) by (simp add: served_def store_new_def)
  moreover have "sto_config ?s0 = c" by (simp add: store_new_def)
  ultimately have s1: "s1 = ?s0\<lparr>sto_index := sto_index ?s0 \<union> I\<rparr>" and v1: "served V (Suc 1) g s1 v1" "sv_entries V v1 = sv_entries V w"
    using load_index_served [OF assms(1) _ _ assms(7,8) index, of 2 g] assms(9) by (metis numeral_2_eq_2 One_nat_def)+
  from load_pack_served [OF assms(1,2) v1(1) pack] s1 v1(2) q show ?thesis by (auto simp: store_new_def)
qed

section \<open>Properties\<close>

text \<open>C17. To the store the service is a write-once map, and the client implements it over the calls it has:
  an insertion takes effect whole, exactly if the key is free, and says so; a lookup gives what the
  key was first given; a lookup by kind and scope gives the newest entry filed there; none of them
  disturbs what is held, and an insertion costs two calls at most.\<close>

theorem client_is_write_once_map:
  assumes "service_laws N V" "k \<noteq> []" "\<not> gha_exhausted g" "2 \<le> sv_calls V w"
  shows "(\<exists>w'. gha_put N g k b w = (Inr (k \<notin> held (sv_entries V w)), g, w')
      \<and> sv_entries V w' = keep_first k b (sv_entries V w) \<and> sv_calls V w \<le> sv_calls V w' + 2)
    \<and> (\<exists>w'. gha_get N g k w = (Inr (map_of (sv_entries V w) k), g, w') \<and> sv_entries V w' = sv_entries V w)
    \<and> (\<exists>w'. gha_get_scoped N g pre scope kind w
        = (Inr (newest (scoped_prefix pre scope kind) [scoped_prefix pre scope kind] (sv_entries V w)), g, w')
      \<and> sv_entries V w' = sv_entries V w)"
  using gha_put_served [OF assms(1,2,4,3), of b] gha_fetch_served [OF assms(1,2) _ _ assms(3), of "[]" w]
    gha_fetch_served [OF assms(1) _ _ _ assms(3), of "scoped_prefix pre scope kind" "[scoped_prefix pre scope kind]" w] assms(4)
  by (auto simp: gha_get_def gha_get_scoped_def newest_exact scoped_prefix_def Let_def)


section \<open>Witnesses\<close>

text \<open>The reference service keeps its promises; the disk here is one that reads nothing back, so that what
  is found was fetched.\<close>

definition kv_service :: "kv_world service" where
  "kv_service = \<lparr>sv_entries = kv_entries, sv_calls = kv_budget, sv_slot = (\<lambda>w k. Some k),
     sv_blob = (\<lambda>w. map_of (kv_pending w)), sv_offer = (\<lambda>w. map_of (kv_entries w))\<rparr>"

definition blind_web :: "(kv_world, (str \<times> bytes) list) web" where
  "blind_web = demo_web\<lparr>sys_read := (\<lambda>p w. None)\<rparr>"

lemma blind_web_simps [simp]:
  "net_post blind_web = net_post kv_net" "net_get blind_web = net_get kv_net"
  "net_put blind_web = net_put kv_net" "net_parse_create blind_web = net_parse_create kv_net"
  "net_parse_finalize blind_web = net_parse_finalize kv_net" "net_parse_download blind_web = net_parse_download kv_net"
  "net_env blind_web = net_env kv_net" "net_now blind_web = net_now kv_net" "sys_read blind_web p w = None"
  "sys_write blind_web p b w = (True, w\<lparr>kv_files := (p, b) # kv_files w\<rparr>)"
  by (simp_all add: blind_web_def demo_web_def kv_sys_def net.defs sys.defs web.defs)

lemma find_satisfies: "find P es = Some x \<Longrightarrow> P x"
  by (induction es) (auto split: if_splits)

lemma found_is_held:
  "find (\<lambda>(e, b). e = k \<or> (\<exists>r \<in> set rs. prefix r e)) es = Some (e, b) \<Longrightarrow> map_of es e = Some b"
proof (induction es)
  case (Cons x es)
  have "e = k \<or> (\<exists>r \<in> set rs. prefix r e)"
    using find_satisfies [OF Cons.prems] by simp
  with Cons show ?case by (cases x) (auto split: if_splits)
qed simp

lemma found_nonempty:
  "find (\<lambda>(e, b). e = k \<or> (\<exists>r \<in> set rs. prefix r e)) es = Some (e, b) \<Longrightarrow> k \<noteq> [] \<Longrightarrow> [] \<notin> set rs \<Longrightarrow> e \<noteq> []"
  by (drule find_satisfies) auto

lemma kv_service_laws: "service_laws blind_web kv_service"
proof -
  have "answers_create blind_web kv_service"
    by (auto simp: answers_create_def kv_service_def kv_net_def Let_def map_of_held contains_sublist)
  moreover have "answers_upload blind_web kv_service" "answers_finalize blind_web kv_service"
    "answers_download blind_web kv_service"
    by (auto simp: answers_upload_def answers_finalize_def answers_download_def kv_service_def kv_net_def Let_def)
  moreover have "answers_lookup blind_web kv_service"
    by (auto simp: answers_lookup_def kv_service_def kv_net_def Let_def newest_def found_is_held
        dest: found_nonempty split: option.splits prod.splits)
  ultimately show ?thesis by (simp add: service_laws_def)
qed

lemma kv_disk_apart: "disk_apart blind_web kv_service"
  by (simp add: disk_apart_def kv_service_def)

theorem client_is_write_once_map_witness:
  "\<exists>w'. gha_put blind_web demo_gha ''k'' [7] kv_empty = (Inr True, demo_gha, w') \<and> kv_entries w' = [(''k'', [7])]"
proof -
  have w: "\<not> gha_exhausted demo_gha" "2 \<le> sv_calls kv_service kv_empty" "sv_entries kv_service kv_empty = []"
    by (simp_all add: demo_gha_def kv_service_def kv_empty_def)
  have "''k'' \<noteq> []" by simp
  from client_is_write_once_map [OF kv_service_laws this w(1,2), of "[7]" "[]" "[]" "[]"] obtain w' where
    "gha_put blind_web demo_gha ''k'' [7] kv_empty = (Inr True, demo_gha, w')" "sv_entries kv_service w' = [(''k'', [7])]"
    by (auto simp: w(3) keep_first_def)
  then show ?thesis by (auto simp: kv_service_def)
qed


text \<open>One job with one object to upload, and the same repository's next one.\<close>

definition old_proxy :: proxy where
  "old_proxy = demo_proxy\<lparr>px_store := demo_store\<lparr>sto_queued := {''c-h''},
     sto_channel := [(''c-h'', entry_frame [9] [1, 2])]\<rparr>\<rparr>"

definition next_args :: proxy_args where
  "next_args = default_args\<lparr>pa_key_prefix := ''c'', pa_scope := Some ''s''\<rparr>"

definition next_header :: cache_header where
  "next_header = (ent_header demo_cached)\<lparr>hdr_sha256 := ''h''\<rparr>"

definition next_crates :: "(part_url, (str \<times> bytes) list) crates" where
  "next_crates = demo_crates\<lparr>lib_hex := (\<lambda>b. ''h''), lib_from_slice := (\<lambda>b. Ok next_header)\<rparr>"

lemma old_proxy_fields [simp]:
  "px_store old_proxy = demo_store\<lparr>sto_queued := {''c-h''}, sto_channel := [(''c-h'', entry_frame [9] [1, 2])]\<rparr>"
  "sto_index demo_store = {}" "sto_config demo_store = demo_config" "sto_uploader demo_store" "sto_gha demo_store = Some demo_gha"
  "sto_index_dirty demo_store = False" "sto_pack_dirty demo_store = False" "\<not> gha_exhausted demo_gha"
  by (simp_all add: old_proxy_def demo_store_def store_new_def demo_gha_def)

lemma old_manifest_key: "manifest_key ''c-h''"
  unfolding manifest_key_def
proof (intro conjI)
  show "rust_str ''c-h''" by (rule rust_str_ascii) simp
  show "plain_line ''c-h''" by (simp add: plain_line_def NL_def CR_def)
  have "trim ''c-h'' = ''c-h''" by (rule trim_id) (simp_all add: solid_def ws1_def)
  then show "trim ''c-h'' \<noteq> []" by simp
qed

lemma old_closes:
  "\<exists>sm p' w t. run_close blind_web old_proxy kv_empty = (sm, p', w)
     \<and> kv_entries w = [(own_key blind_web demo_config ''index'' t, manifest_body {''c-h''}), (''c-h'', entry_frame [9] [1, 2])]"
proof -
  let ?raw = "entry_frame [9] [1, 2]"
  have put: "gha_put blind_web demo_gha ''c-h'' ?raw kv_empty = (Inr True, demo_gha,
      kv_empty\<lparr>kv_entries := [(''c-h'', ?raw)], kv_pending := [(''c-h'', ?raw)], kv_budget := 7\<rparr>)"
    by (simp add: gha_put_def gha_rpc_def kv_net_def kv_empty_def is_success_def Let_def)
  show ?thesis
    by (simp add: run_close_def flush_def Let_def upload_task_def put upload_result_def confirm_def save_index_def save_pack_def)
      (simp add: gha_put_scoped_def gha_put_def gha_rpc_def kv_net_def kv_empty_def is_success_def Let_def
        scoped_key_def scoped_prefix_def run_id_def demo_config_def)
qed

lemma next_opens:
  assumes "kv_entries w = [(own_key blind_web demo_config ''index'' t, b), (''c-h'', raw)]" "kv_budget w = 3"
  shows "\<exists>q w3. run_open blind_web (\<lambda>_. None) next_args ''d'' (Some demo_gha) True (Ok []) w = (Ok q, w3)"
proof -
  have keys: "scoped_prefix ''c'' ''s'' ''pack'' \<noteq> own_key blind_web demo_config ''index'' t"
    "\<not> prefix (scoped_prefix ''c'' ''s'' ''pack'') (own_key blind_web demo_config ''index'' t)"
    "scoped_prefix ''c'' ''s'' ''pack'' \<noteq> ''c-h''" "\<not> prefix (scoped_prefix ''c'' ''s'' ''pack'') ''c-h''"
    "prefix (scoped_prefix ''c'' ''s'' ''index'') (own_key blind_web demo_config ''index'' t)"
    by (simp_all add: scoped_prefix_def scoped_key_def demo_config_def)
  have args: "args_config (\<lambda>_. None) next_args = \<lparr>cfg_key_prefix = ''c'', cfg_scope = ''s'',
      cfg_pack_threshold = 1024 * 1024, cfg_pack_limit = 512 * 1024 * 1024, cfg_concurrency = unat (8 :: u64)\<rparr>"
    by (simp add: args_config_def next_args_def default_args_def args_scope_def)
  show ?thesis
    using assms keys
    by (simp add: run_open_def args open_log_def load_index_def load_pack_def store_new_def proxy_new_def gha_get_scoped_def
        gha_fetch_def gha_rpc_def kv_net_def is_success_def Let_def)
qed

lemma next_eligible:
  "request_eligible (args_policy next_args) (lib_url next_crates) (lib_headers next_crates) ''GET'' demo_url [] = Inr ()"
  by (simp add: request_eligible_def args_policy_def next_args_def default_args_def next_crates_def demo_url_def https_url_def
      part_urls_def alist_headers_def is_bypassed_def ALWAYS_BYPASS_def host_matches_def trim_start_char_def
      trim_end_char_def unwrap_or_default_def is_signed_url_def)


end
