(* ===== verification/Tests.thy ===== *)
theory Tests
  imports Policy Pack
begin

text \<open>
  The repository's unit tests (\<open>src/src/policy.rs\<close>, \<open>src/src/pack.rs\<close>), each as a definition that
  evaluates what the test asserts, and that all of them pass on the model. URLs are given in the parts
  that parsing yields.
\<close>

section \<open>Policy\<close>

definition subdomains_match_but_suffixes_do_not :: bool where
  "subdomains_match_but_suffixes_do_not \<longleftrightarrow>
     host_matches ''a.b.example.com'' ''example.com'' \<and> host_matches ''example.com'' ''example.com''
     \<and> \<not> host_matches ''notexample.com'' ''example.com'' \<and> \<not> host_matches ''com'' ''example.com''"

definition cache_service_and_configured_hosts_are_bypassed :: bool where
  "cache_service_and_configured_hosts_are_bypassed \<longleftrightarrow>
     is_bypassed test_policy ''results-receiver.actions.githubusercontent.com''
     \<and> is_bypassed test_policy ''x.blob.core.windows.net''
     \<and> is_bypassed test_policy ''build.internal.example'' \<and> \<not> is_bypassed test_policy ''registry.npmjs.org''"

abbreviation eligible :: "policy \<Rightarrow> part_url \<Rightarrow> (str \<times> bytes) list \<Rightarrow> reject + unit" where
  "eligible P url headers \<equiv> request_eligible P (part_urls []) alist_headers ''GET'' url headers"

abbreviation storable :: "part_url \<Rightarrow> u16 \<Rightarrow> (str \<times> bytes) list \<Rightarrow> u64 \<Rightarrow> reject + unit" where
  "storable url status headers len \<equiv>
     response_storable test_policy (part_urls []) alist_headers url status headers len"

definition pre_signed_urls_are_never_eligible :: bool where
  "pre_signed_urls_are_never_eligible \<longleftrightarrow>
     (let plain = https_url ''objects.githubusercontent.com'' ''/x'';
          signed = plain\<lparr>pu_query := [(''X-Amz-Signature'', ''abc'')]\<rparr> in
      eligible test_policy signed [] = Inl SignedUrl \<and> eligible test_policy plain [] = Inr ())"

definition credentialed_requests_are_not_cached_by_default :: bool where
  "credentialed_requests_are_not_cached_by_default \<longleftrightarrow>
     (let headers = [(''authorization'', as_bytes ''Bearer x'')] in
      eligible test_policy npm_url headers = Inl Authorized
      \<and> eligible (test_policy\<lparr>cache_authorized := True\<rparr>) npm_url headers = Inr ())"

definition mutable_metadata_is_rejected_but_artifacts_are_stored :: bool where
  "mutable_metadata_is_rejected_but_artifacts_are_stored \<longleftrightarrow>
     storable pypi_url 200 [] 4096 = Inl NotImmutable
     \<and> storable (https_url ''registry.npmjs.org'' ''/lodash/-/lodash-4.17.21.tgz'') 200 [] 4096 = Inr ()
     \<and> storable pypi_url 200 [(''cache-control'', as_bytes ''public, max-age=31536000'')] 4096 = Inr ()"

definition size_bounds_and_no_store_are_enforced :: bool where
  "size_bounds_and_no_store_are_enforced \<longleftrightarrow>
     storable npm_url 200 [] 10 = Inl TooSmall \<and> storable npm_url 200 [] (push_bit 30 1) = Inl TooLarge
     \<and> storable npm_url 302 [] 4096 = Inl Status
     \<and> storable npm_url 200 [(''cache-control'', as_bytes ''private, no-store'')] 4096 = Inl NoStore"

text \<open>\<open>Url::parse\<close> leaves out a default port; the digest is the identity.\<close>

definition keys_ignore_default_ports_and_fragments :: bool where
  "keys_ignore_default_ports_and_fragments \<longleftrightarrow>
     (let a = https_url ''example.com'' ''/a''; k = policy_key test_policy (part_urls []) id of_bytes in
      k (a\<lparr>pu_fragment := Some ''frag''\<rparr>) = k a \<and> k (a\<lparr>pu_port := Some 443, pu_fragment := Some ''frag''\<rparr>) = k a
      \<and> k a \<noteq> k (https_url ''example.com'' ''/b''))"

section \<open>Pack\<close>

definition round_trips :: bool where
  "round_trips \<longleftrightarrow> pack_decode (pack_encode sample (- 1)) = Ok sample"

definition stops_at_the_size_ceiling :: bool where
  "stops_at_the_size_ceiling \<longleftrightarrow> (case pack_decode (pack_encode sample 40) of
     Ok decoded \<Rightarrow> length decoded = 1 \<and> fst (hd decoded) = ''alpha'' | _ \<Rightarrow> False)"

definition recovers_what_survives_truncation :: bool where
  "recovers_what_survives_truncation \<longleftrightarrow>
     (let encoded = pack_encode sample (- 1) in
      case pack_decode (take (length encoded - 3) encoded) of
        Ok decoded \<Rightarrow> length decoded = 1 \<and> fst (hd decoded) = ''alpha'' | _ \<Rightarrow> False)"

definition rejects_foreign_data :: bool where
  "rejects_foreign_data \<longleftrightarrow> (case pack_decode (as_bytes ''not a pack at all'') of Err e \<Rightarrow> True | _ \<Rightarrow> False)"

section \<open>They pass\<close>

lemmas evaluation = request_eligible_def is_bypassed_def ALWAYS_BYPASS_def host_matches_def ends_with_def
  trim_start_char_def trim_end_char_def unwrap_or_default_def is_signed_url_def SIGNATURE_PARAMS_def
  to_ascii_lowercase_def lower_char_def char_of_def bit_0 Let_def test_policy_def npm_url_def https_url_def part_urls_def alist_headers_def

lemma host_tests: "subdomains_match_but_suffixes_do_not" "cache_service_and_configured_hosts_are_bypassed"
  by (simp_all add: subdomains_match_but_suffixes_do_not_def cache_service_and_configured_hosts_are_bypassed_def evaluation)

lemma request_tests: "pre_signed_urls_are_never_eligible" "credentialed_requests_are_not_cached_by_default"
  by (simp_all add: pre_signed_urls_are_never_eligible_def credentialed_requests_are_not_cached_by_default_def evaluation)

text \<open>A text value of \<open>Cache-Control\<close> is read as it is, in lower case.\<close>

lemma cache_control_text:
  "ascii_text (as_bytes v) = Some v \<Longrightarrow> cache_control_of alist_headers [(''cache-control'', as_bytes v)] = to_ascii_lowercase v"
  by (simp add: cache_control_of_def alist_headers_def unwrap_or_default_def)

lemma no_max_age: "max_age [] = None"
  by (simp add: max_age_def strip_prefix_def starts_with_def trim_def trim_start_def trim_end_def)

lemmas artifact_evaluation = response_storable_def is_immutable_artifact_def IMMUTABLE_def host_matches_def starts_with_def
  ends_with_def Let_def test_policy_def npm_url_def pypi_url_def https_url_def part_urls_def no_max_age
  unwrap_or_default_def

lemma no_cache_control: "cache_control_of alist_headers [] = []"
  by (simp add: cache_control_of_def alist_headers_def unwrap_or_default_def to_ascii_lowercase_def)

lemma long_lived:
  "cache_control_of alist_headers [(''cache-control'', as_bytes ''public, max-age=31536000'')] = ''public, max-age=31536000''"
  "max_age ''public, max-age=31536000'' = Some 31536000"
proof -
  have "ascii_text (as_bytes ''public, max-age=31536000'') = Some ''public, max-age=31536000''"
    unfolding ascii_text_def of_bytes_as_bytes by (simp add: as_bytes_def)
  then show "cache_control_of alist_headers [(''cache-control'', as_bytes ''public, max-age=31536000'')]
      = ''public, max-age=31536000''"
    by (simp add: cache_control_text to_ascii_lowercase_def lower_char_def)
  have "dec 31536000 = ''31536000''" by (simp add: dec.simps digit_chars)
  then show "max_age ''public, max-age=31536000'' = Some 31536000"
    using max_age_of_directives [of "[''public'']" "[]" 31536000 1] by (simp add: trim_id solid_def ws1_def starts_with_def)
qed

lemma private_value:
  "cache_control_of alist_headers [(''cache-control'', as_bytes ''private, no-store'')] = ''private, no-store''"
proof -
  have "ascii_text (as_bytes ''private, no-store'') = Some ''private, no-store''"
    unfolding ascii_text_def of_bytes_as_bytes by (simp add: as_bytes_def)
  then show ?thesis by (simp add: cache_control_text to_ascii_lowercase_def lower_char_def)
qed

lemma artifact_tests: "mutable_metadata_is_rejected_but_artifacts_are_stored"
  unfolding mutable_metadata_is_rejected_but_artifacts_are_stored_def
proof (intro conjI)
  show "storable pypi_url 200 [] 4096 = Inl NotImmutable"
    by (simp add: artifact_evaluation no_cache_control)
  show "storable (https_url ''registry.npmjs.org'' ''/lodash/-/lodash-4.17.21.tgz'') 200 [] 4096 = Inr ()"
    by (simp add: artifact_evaluation no_cache_control)
  show "storable pypi_url 200 [(''cache-control'', as_bytes ''public, max-age=31536000'')] 4096 = Inr ()"
    unfolding response_storable_def long_lived Let_def by (simp add: test_policy_def starts_with_def)
qed

lemma size_tests: "size_bounds_and_no_store_are_enforced"
  unfolding size_bounds_and_no_store_are_enforced_def
proof (intro conjI)
  show "storable npm_url 200 [(''cache-control'', as_bytes ''private, no-store'')] 4096 = Inl NoStore"
    unfolding response_storable_def private_value Let_def by (simp add: starts_with_def)
qed (simp_all add: response_storable_def no_cache_control Let_def test_policy_def starts_with_def)

lemma key_test: "keys_ignore_default_ports_and_fragments"
  by (simp add: keys_ignore_default_ports_and_fragments_def policy_key_def normalize_url_def Let_def part_urls_def
      https_url_def part_url_str_def as_bytes_def of_bytes_def char_of_def)

lemma pack_tests: "round_trips" "stops_at_the_size_ceiling" "rejects_foreign_data"
proof -
  have decode: "pack_decode (pack_encode sample m) = Ok (pack_kept sample m 4)" for m
    using pack_decode_encode [OF sample_packable, of m] pack_sample_length [of m] by simp
  show "round_trips" unfolding round_trips_def decode by (simp add: sample_def)
  show "stops_at_the_size_ceiling" unfolding stops_at_the_size_ceiling_def decode by (simp add: sample_def)
  show "rejects_foreign_data" by (simp add: rejects_foreign_data_def pack_decode_def pack_magic_def as_bytes_def)
qed

lemma truncation_test: "recovers_what_survives_truncation"
proof -
  have all: "pack_encode sample (- 1) = pack_magic @ records sample"
    by (simp add: pack_encode_eq pack_kept_all sample_def)
  have "pack_decode_loop (take (4 + 51) (pack_magic @ records sample)) 4 [] = Ok ([] @ intact sample 51)"
    by (rule pack_decode_loop_truncated [OF sample_packable, where p = pack_magic]) (simp_all add: sample_def)
  then have "pack_decode (take 55 (pack_encode sample (- 1))) = Ok (intact sample 51)"
    unfolding all by (simp add: pack_decode_magic)
  then show ?thesis
    unfolding recovers_what_survives_truncation_def Let_def all by (simp add: sample_def)
qed

end
