(* ===== verification/Spec2Isabelle.thy ===== *)
theory Spec2Isabelle
  imports Prelude Utf8 Rust_Str Http Pack Policy Entry Fmt Stats Gha Store Upload Proxy Ca Args Cli Steps Serve Daemon Service Tests
begin

text \<open>
  A model of cicache, a caching HTTP(S) forward proxy for CI jobs, and the theorems that make it
  correct. All of the program is Rust, in nine files under \<open>src/src/\<close>. A job runs \<open>cicache start\<close>,
  which launches the daemon (\<open>cicache run\<close>) and points the job's tools at it; requests then flow
  through the proxy; \<open>cicache stop\<close> has the daemon drain its uploads and report.

  Parts, in the order of the theories.

  \<^item> \<open>Prelude\<close>: machine integers (\<open>w word\<close>, with \<open>usize\<close> of 64 bits), byte strings, the result type of
    fallible functions (\<open>Ok\<close>, \<open>Err\<close>, \<open>Panic\<close>), little-endian codecs, and the interfaces as locales:
    \<open>le_codec\<close> (interpreted for 32 and 64 bits), \<open>commuting_steps\<close> (interpreted in \<open>Stats\<close> on
    \<open>fetch_add\<close>), \<open>object_cache\<close> (what the proxy relies on in its store; interpreted in \<open>Store\<close>
    on \<open>store_get\<close> and \<open>store_put\<close>) and \<open>stepping\<close> (interpreted in \<open>Upload\<close> on the steps of a job and
    in \<open>Serve\<close>, once per invariant, on those of the server).
  \<^item> \<open>Utf8\<close>, \<open>Rust_Str\<close>, \<open>Fmt\<close>: the functions of Rust's standard library the program calls.
  \<^item> \<open>Http\<close>: the types of the crates \<open>url\<close> and \<open>http\<close>, as parameters with their documented laws.
  \<^item> \<open>Pack\<close> (\<open>pack.rs\<close>): the container of small objects, \<open>encode\<close> and \<open>decode\<close>.
  \<^item> \<open>Policy\<close> (\<open>policy.rs\<close>): which requests may use the cache, which responses are stored, the key.
  \<^item> \<open>Entry\<close> (\<open>entry.rs\<close>): the wire format of a cached response.
  \<^item> \<open>Stats\<close> (\<open>stats.rs\<close>): counters, log, summary.
  \<^item> \<open>Gha\<close> (\<open>gha.rs\<close>): the client of the Actions cache service.
  \<^item> \<open>Store\<close> (\<open>store.rs\<close>): the two-level store, with manifest, pack, queue and teardown.
  \<^item> \<open>Upload\<close> (\<open>store.rs\<close>, \<open>upload_loop\<close>): the concurrent upload loop beside the requests.
  \<^item> \<open>Proxy\<close> (\<open>proxy.rs\<close>): from a request to its response, in one go.
  \<^item> \<open>Steps\<close> (\<open>proxy.rs\<close>, \<open>store.rs\<close>): the same request one suspension at a time (\<open>advance\<close>), and that
    run without interruption it is \<open>dispatch\<close>.
  \<^item> \<open>Serve\<close> (\<open>proxy.rs\<close>: \<open>serve\<close>, \<open>connect\<close>, \<open>intercept\<close>): the server, whose connections, requests,
    tunnels and uploads take steps in any order (\<open>own_step\<close>), with what happens around it
    (\<open>outer_step\<close>): clients that come, ask and leave, signals, listener errors, changes of the world.
  \<^item> \<open>Ca\<close> (\<open>ca.rs\<close>): the trust bundle, its files and the certificates.
  \<^item> \<open>Args\<close> (\<open>main.rs\<close>): arguments, environment variables, the curl configuration.
  \<^item> \<open>Cli\<close> (\<open>main.rs\<close>): waiting loops, child processes, the keychain, \<open>start\<close> and \<open>stop\<close>.
  \<^item> \<open>Daemon\<close> (\<open>main.rs\<close>): \<open>run\<close> before and after the accept loop, and \<open>main\<close>.
  \<^item> \<open>Service\<close>: an abstract specification of the cache service, that \<open>Gha\<close>'s client implements a
    write-once map on it, and what one job leaves to the next.
  \<^item> \<open>Tests\<close>: the repository's unit tests, evaluated on the model.

  How state corresponds. A struct is a record with a short prefix to its fields (\<open>Store\<close> is \<open>store\<close>
  with \<open>sto_\<close>, \<open>Stats\<close> is \<open>stats\<close> with \<open>st_\<close>, \<open>Proxy\<close> is \<open>proxy\<close> with \<open>px_\<close>, \<open>GhaCache\<close> is \<open>gha\<close> with
  \<open>gha_\<close>); a method takes the record and returns it updated. Shared sets and atomics are fields of
  the one record that all users thread; the tasks of the program are the connections and uploads of
  the record \<open>server\<close>. The outside (file system, cache service, upstream servers, clock, child
  processes) is a world of an arbitrary type, reached through the functions of the records \<open>net\<close>,
  \<open>sys\<close>, \<open>web\<close>, \<open>os\<close> and \<open>boot\<close>; the crates are records of functions (\<open>url_ops\<close>, \<open>header_ops\<close>,
  \<open>crates\<close>, \<open>crypto\<close>). What is documented of them and needed is a named hypothesis (\<open>header_laws\<close>,
  \<open>json_law\<close>, \<open>disk_laws\<close>, \<open>disk_writes\<close>, \<open>web_laws\<close>, \<open>tag_law\<close>, \<open>clock_law\<close>, \<open>server_laws\<close>,
  \<open>codec_total\<close>, \<open>service_laws\<close>, \<open>disk_apart\<close>), and for each an instance is given for which it holds.
  Messages printed for humans are modelled where \<open>start\<close>, \<open>stop\<close> and the keychain commands build
  them, and left out elsewhere.

  What is shown. Formats: pack and entry round trips, what a decoder accepts, truncation, tampering
  and the size ceiling. Policy: each decision is the first row of the documented table that applies,
  host patterns match exactly subdomains, keys separate URLs. Store: what was put is found whatever
  happens in between, a key is asked for at most once, manifest and pack carry over to the next job.
  Uploads, for every interleaving: no key is sent twice, the concurrency bound holds, the manifest
  lists exactly the keys answered for, everything stored is accounted for when the loop is quiet, the
  loop ends, and the sequential teardown is one of its schedules. Proxy: a stored response is
  replayed as it was, only storable responses are stored, a request outside the policy leaves no
  trace, every answered request is counted once. Server, for every interleaving of requests, uploads
  and the outside: only storable objects are sent and each key once, hits are authentic, answers are
  well formed, the server comes to rest with everything answered, shutdown is final. Commands:
  arguments reach the daemon, \<open>start\<close> and \<open>stop\<close> return, the daemon is ready when it says so, its
  summary accounts for every upload, the curl configuration is restored, the trust bundle keeps the
  system's roots. Two jobs: what the first has waiting when it ends is a hit in the second. Where the
  code falls short of its documentation the theorem states what it does (the panic on an overlong
  pack record, the first \<open>Cache-Control\<close> line, the rate-limited job that warns of nothing, the object
  lost with its client, the accept error that skips teardown, the dashed key prefix).

  Recursion is structural or has a measure; the loops that wait on the clock are partial functions
  into \<open>option\<close>, shown to return under \<open>clock_law\<close>. No fuel is used.

  Not modelled: the bytes of TLS handshakes and of the tunnels' two-way copy (\<open>tunnel\<close>), which \<open>rustls\<close>
  and \<open>tokio\<close> do (a handshake or a tunnel is a step that succeeds or fails); HTTP parsing, which
  \<open>hyper\<close> does; the parsing of arguments other than those \<open>start\<close> hands on, which \<open>clap\<close> does; log
  messages.
\<close>

section \<open>A job whose service refuses calls\<close>

lemma drain_exhausted:
  assumes "sto_gha s = Some g" "gha_exhausted g"
  shows "\<exists>d. drain S items s w
    = (s\<lparr>sto_index := sto_index s \<union> fst ` set items, sto_index_dirty := d, sto_channel := []\<rparr>, w)"
  using assms
proof (induction items arbitrary: s)
  case Nil
  show ?case by (intro exI [of _ "sto_index_dirty s"]) simp
next
  case (Cons item items)
  have step: "upload_task S item s w = (confirm (fst item) s, w)"
    using Cons.prems by (simp add: upload_task_def gha_put_exhausted upload_result_def same_gha)
  have "sto_gha (confirm (fst item) s) = Some g" using Cons.prems by (simp add: confirm_def)
  from Cons.IH [OF this Cons.prems(2)] obtain d where
    "drain S items (confirm (fst item) s) w = ((confirm (fst item) s)\<lparr>sto_index :=
      sto_index (confirm (fst item) s) \<union> fst ` set items, sto_index_dirty := d, sto_channel := []\<rparr>, w)"
    by blast
  with step show ?case
    by (intro exI [of _ d]) (auto simp: confirm_def insert_absorb)
qed

lemma save_index_exhausted:
  "sto_gha s = Some g \<Longrightarrow> gha_exhausted g \<Longrightarrow> save_index S s w = (s, w)"
  by (auto simp: save_index_def gha_put_scoped_def gha_put_exhausted Let_def)

lemma read_objects_store: "sto_objects s' = sto_objects s \<Longrightarrow> read_objects S s' = read_objects S s"
  by (intro ext) (simp add: read_objects_def store_path_def)

section \<open>Properties across components\<close>


definition demo_tired :: proxy where
  "demo_tired = demo_proxy\<lparr>px_store := demo_store\<lparr>sto_gha := Some (demo_gha\<lparr>gha_exhausted := True\<rparr>),
     sto_packed := {''k''}, sto_pack_dirty := True, sto_channel := [(''j'', [7, 8])]\<rparr>\<rparr>"


end
